theory Spec2Isabelle
  imports Complex_Main
begin

section \<open>Values of the notebook\<close>

text \<open>
  The notebook \<^verbatim>\<open>Dataverse_to_Bronze_fst_chemical.py\<close> handles parsed JSON: the
  bodies of the Dataverse responses, the token response and the records. A parsed JSON
  value is what \<^verbatim>\<open>r.json()\<close> returns: \<^verbatim>\<open>None\<close>, a bool, an int, a float, a
  str, a list or a dict. A dict is kept as the list of its items in insertion order
  (its keys are distinct).
\<close>

datatype json =
    JNull
  | JBool bool
  | JInt int
  | JFloat rat
  | JStr string
  | JArr "json list"
  | JObj "(string \<times> json) list"

text \<open>What is attached to the error of a failed GET: \<^verbatim>\<open>r.json()\<close>, else \<^verbatim>\<open>r.text\<close>.\<close>

datatype details = DetailsJson json | DetailsText string

text \<open>
  Every exception the modelled code can raise.
  \<^item> \<open>ConfigMissing missing\<close>: \<^verbatim>\<open>ValueError(f"Missing config: {missing}. ...")\<close>
  \<^item> \<open>TokenAcquisitionFailed result\<close>: \<^verbatim>\<open>RuntimeError(f"Token acquisition failed: {result}")\<close>
  \<^item> \<open>GetFailed status details\<close>: \<^verbatim>\<open>RuntimeError(f"GET failed {r.status_code}: {details}")\<close>
  \<^item> \<open>RetriesExceeded\<close>: \<^verbatim>\<open>RuntimeError("Exceeded retries for GET.")\<close>
  \<^item> \<open>OverflowError\<close>: Python's "int too large to convert to float", in \<^verbatim>\<open>_backoff\<close>
  \<^item> \<open>TransportError msg\<close>: an exception of \<^verbatim>\<open>SESSION.get\<close> itself (timeout, connection)
  \<^item> \<open>JSONDecodeError\<close>: \<^verbatim>\<open>r.json()\<close> on a 200 response whose body is not JSON
  \<^item> \<open>AttributeError\<close>: \<^verbatim>\<open>data.get\<close> on a body that is not a dict
  \<^item> \<open>TypeError\<close>: iterating a value that is not iterable
\<close>

datatype error =
    ConfigMissing "string list"
  | TokenAcquisitionFailed "(string \<times> json) list"
  | GetFailed int details
  | RetriesExceeded
  | OverflowError
  | TransportError string
  | JSONDecodeError
  | AttributeError
  | TypeError

text \<open>Python's truth value of a parsed JSON value (\<^verbatim>\<open>not next_link\<close>).\<close>

fun truthy :: "json \<Rightarrow> bool" where
  "truthy JNull = False"
| "truthy (JBool b) = b"
| "truthy (JInt i) = (i \<noteq> 0)"
| "truthy (JFloat q) = (q \<noteq> 0)"
| "truthy (JStr s) = (s \<noteq> [])"
| "truthy (JArr xs) = (xs \<noteq> [])"
| "truthy (JObj kvs) = (kvs \<noteq> [])"

text \<open>\<^verbatim>\<open>data.get(key, default)\<close>: only a dict has \<^verbatim>\<open>get\<close>.\<close>

fun dict_get :: "json \<Rightarrow> string \<Rightarrow> json \<Rightarrow> error + json" where
  "dict_get (JObj kvs) k d = Inr (case map_of kvs k of Some v \<Rightarrow> v | None \<Rightarrow> d)"
| "dict_get _ k d = Inl AttributeError"

text \<open>
  \<^verbatim>\<open>for row in v\<close>: a list gives its elements, a dict its keys, a str its characters;
  nothing else is iterable.
\<close>

fun py_iter :: "json \<Rightarrow> error + json list" where
  "py_iter (JArr xs) = Inr xs"
| "py_iter (JObj kvs) = Inr (map (\<lambda>kv. JStr (fst kv)) kvs)"
| "py_iter (JStr s) = Inr (map (\<lambda>c. JStr [c]) s)"
| "py_iter _ = Inl TypeError"

section \<open>The HTTP session, the clock and the retry policy\<close>

text \<open>
  A request is the URL and the query parameters given to \<^verbatim>\<open>SESSION.get\<close>. The URL is
  whatever value the caller passes: \<^verbatim>\<open>fetch_all\<close> passes the string it built, and then
  each \<^verbatim>\<open>@odata.nextLink\<close> as it came.
\<close>

type_synonym params = "(string \<times> string) list option"
type_synonym request = "json \<times> params"

text \<open>
  Of a response the code reads \<^verbatim>\<open>status_code\<close>, \<^verbatim>\<open>json()\<close> (\<open>None\<close> when
  the body does not parse, where \<^verbatim>\<open>r.json()\<close> raises) and \<^verbatim>\<open>text\<close>.
\<close>

record response =
  status_code :: int
  json_of :: "json option"
  text_of :: string

text \<open>
  The remote end is any function giving, for the number of requests sent before and the
  request, either the exception \<^verbatim>\<open>SESSION.get\<close> raises or the response it returns.
\<close>

type_synonym server = "nat \<Rightarrow> request \<Rightarrow> string + response"

text \<open>The effects the code has on the outside: the requests sent and the sleeps taken.\<close>

record world =
  requests :: "request list"
  sleeps :: "rat list"

definition SESSION_get :: "server \<Rightarrow> json \<Rightarrow> params \<Rightarrow> world \<Rightarrow> (string + response) \<times> world" where
  "SESSION_get srv url ps w =
     (srv (length (requests w)) (url, ps), w\<lparr>requests := requests w @ [(url, ps)]\<rparr>)"

text \<open>
  \<^verbatim>\<open>min(cap, base*(2**(attempt-1)))\<close> with \<^verbatim>\<open>base=1.0\<close> and \<^verbatim>\<open>cap=30.0\<close>, the only
  values the notebook calls \<^verbatim>\<open>_backoff\<close> with. \<^verbatim>\<open>2**(attempt-1)\<close> is an int for
  \<^verbatim>\<open>attempt >= 1\<close>, and \<^verbatim>\<open>1.0 * n\<close> converts it to a float: exact for a power of two
  below \<open>2^1024\<close>, and an OverflowError from \<open>2^1024\<close> on. For \<^verbatim>\<open>attempt < 1\<close> the
  power is the float \<open>2^(attempt-1)\<close>, which is \<open>0.0\<close> below \<open>2^-1074\<close>.
\<close>

definition backoff_delay :: "int \<Rightarrow> error + rat" where
  "backoff_delay attempt =
     (let e = attempt - 1 in
      if 1024 \<le> e then Inl OverflowError
      else if e < - 1074 then Inr (min 30 (1 * 0))
      else Inr (min 30 (1 * (2 powi e))))"

text \<open>\<^verbatim>\<open>_backoff(attempt)\<close>: \<^verbatim>\<open>time.sleep\<close> of that delay.\<close>

definition backoff :: "int \<Rightarrow> world \<Rightarrow> (error + unit) \<times> world" where
  "backoff attempt w =
     (case backoff_delay attempt of
        Inl e \<Rightarrow> (Inl e, w)
      | Inr d \<Rightarrow> (Inr (), w\<lparr>sleeps := sleeps w @ [d]\<rparr>))"

definition retryable :: "int \<Rightarrow> bool" where
  "retryable s = (s \<in> {429, 500, 502, 503, 504})"

text \<open>
  The body of \<^verbatim>\<open>dataverse_get\<close>'s \<^verbatim>\<open>for a in range(1, max_retries+1)\<close>, over the
  attempt numbers still to come; falling out of the loop raises "Exceeded retries".
\<close>

fun dataverse_get_loop ::
  "server \<Rightarrow> json \<Rightarrow> params \<Rightarrow> int list \<Rightarrow> world \<Rightarrow> (error + json) \<times> world" where
  "dataverse_get_loop srv url ps [] w = (Inl RetriesExceeded, w)"
| "dataverse_get_loop srv url ps (a # as) w =
     (case SESSION_get srv url ps w of
        (Inl msg, w1) \<Rightarrow> (Inl (TransportError msg), w1)
      | (Inr r, w1) \<Rightarrow>
          if status_code r = 200 then
            (case json_of r of
               None \<Rightarrow> (Inl JSONDecodeError, w1)
             | Some j \<Rightarrow> (Inr j, w1))
          else if retryable (status_code r) then
            (case backoff a w1 of
               (Inl e, w2) \<Rightarrow> (Inl e, w2)
             | (Inr _, w2) \<Rightarrow> dataverse_get_loop srv url ps as w2)
          else
            (Inl (GetFailed (status_code r)
                   (case json_of r of Some j \<Rightarrow> DetailsJson j | None \<Rightarrow> DetailsText (text_of r))),
             w1))"

definition dataverse_get ::
  "server \<Rightarrow> json \<Rightarrow> params \<Rightarrow> int \<Rightarrow> world \<Rightarrow> (error + json) \<times> world" where
  "dataverse_get srv url ps max_retries w = dataverse_get_loop srv url ps [1..max_retries] w"

section \<open>Configuration and authentication\<close>

text \<open>
  The secret scope: \<open>None\<close> when \<^verbatim>\<open>dbutils\<close> is not defined (then \<^verbatim>\<open>_dbutils()\<close>
  raises), else the secrets by key. \<^verbatim>\<open>secrets.get\<close> raises on a key the scope does not
  hold; \<^verbatim>\<open>get_cfg\<close> catches every exception of a lookup, so a lookup is modelled by
  whether it returns.
\<close>

type_synonym secret_store = "(string \<rightharpoonup> string) option"

definition secrets_get :: "secret_store \<Rightarrow> string \<Rightarrow> string option" where
  "secrets_get store key = (case store of None \<Rightarrow> None | Some m \<Rightarrow> m key)"

text \<open>
  The \<^verbatim>\<open>try\<close> block of \<^verbatim>\<open>get_cfg\<close>: the first lookup that raises among client id,
  client secret and tenant id sets all four variables to \<^verbatim>\<open>None\<close>; the URL has a
  \<^verbatim>\<open>try\<close> of its own.
\<close>

definition read_secrets ::
  "secret_store \<Rightarrow> string option \<times> string option \<times> string option \<times> string option" where
  "read_secrets store =
     (case secrets_get store ''dataverse-client-id'' of
        None \<Rightarrow> (None, None, None, None)
      | Some cid \<Rightarrow>
          (case secrets_get store ''dataverse-client-secret'' of
             None \<Rightarrow> (None, None, None, None)
           | Some csec \<Rightarrow>
               (case secrets_get store ''dataverse-tenant-id'' of
                  None \<Rightarrow> (None, None, None, None)
                | Some tid \<Rightarrow> (Some cid, Some csec, Some tid, secrets_get store ''dataverse-url''))))"

text \<open>\<^verbatim>\<open>x or y\<close> for \<^verbatim>\<open>x\<close> a str or \<^verbatim>\<open>None\<close>: \<^verbatim>\<open>x\<close> unless it is \<^verbatim>\<open>None\<close> or empty.\<close>

definition py_or :: "string option \<Rightarrow> string \<Rightarrow> string" where
  "py_or x y = (case x of Some (c # cs) \<Rightarrow> c # cs | _ \<Rightarrow> y)"

text \<open>The widgets are the four text widgets the notebook creates, each with default \<^verbatim>\<open>""\<close>.\<close>

definition get_cfg ::
  "secret_store \<Rightarrow> (string \<Rightarrow> string) \<Rightarrow> error + (string \<times> string \<times> string \<times> string)" where
  "get_cfg store widgets =
     (case read_secrets store of
        (cid0, csec0, tid0, url0) \<Rightarrow>
          (let cid = py_or cid0 (widgets ''client_id'');
               csec = py_or csec0 (widgets ''client_secret'');
               tid = py_or tid0 (widgets ''tenant_id'');
               url = py_or url0 (widgets ''dataverse_url'');
               missing = map fst (filter (\<lambda>kv. snd kv = [])
                  [(''client_id'', cid), (''client_secret'', csec),
                   (''tenant_id'', tid), (''dataverse_url'', url)])
           in if missing \<noteq> [] then Inl (ConfigMissing missing) else Inr (cid, csec, tid, url)))"

text \<open>
  The MSAL library: a confidential client application, made from the client id, the
  credential and the authority, answers \<^verbatim>\<open>acquire_token_silent\<close> with a dict or
  \<^verbatim>\<open>None\<close> and \<^verbatim>\<open>acquire_token_for_client\<close> with a dict. The calls made are logged.
\<close>

record msal_app =
  acquire_token_silent :: "string list \<Rightarrow> (string \<times> json) list option"
  acquire_token_for_client :: "string list \<Rightarrow> (string \<times> json) list"

datatype msal_call = AcquireTokenSilent "string list" | AcquireTokenForClient "string list"

definition get_access_token ::
  "(string \<Rightarrow> string \<Rightarrow> string \<Rightarrow> msal_app) \<Rightarrow> string \<Rightarrow> string \<Rightarrow> string \<Rightarrow> string
     \<Rightarrow> (error + json) \<times> msal_call list" where
  "get_access_token msal client_id client_secret tenant_id scope =
     (let authority = ''https://login.microsoftonline.com/'' @ tenant_id;
          app = msal client_id client_secret authority;
          silent = acquire_token_silent app [scope];
          (result, calls) =
             (case silent of
                Some (kv # kvs) \<Rightarrow> (kv # kvs, [AcquireTokenSilent [scope]])
              | _ \<Rightarrow> (acquire_token_for_client app [scope],
                       [AcquireTokenSilent [scope], AcquireTokenForClient [scope]]))
      in case map_of result ''access_token'' of
           None \<Rightarrow> (Inl (TokenAcquisitionFailed result), calls)
         | Some tok \<Rightarrow> (Inr tok, calls))"

section \<open>Paging through an entity set\<close>

text \<open>\<^verbatim>\<open>str(n)\<close> of an int, for \<^verbatim>\<open>f"$top={int(top)}"\<close>.\<close>

definition digit_char :: "nat \<Rightarrow> char" where
  "digit_char d = ''0123456789'' ! d"

function str_nat :: "nat \<Rightarrow> string" where
  "str_nat n = (if n < 10 then [digit_char n] else str_nat (n div 10) @ [digit_char (n mod 10)])"
  by pat_completeness auto
termination
  by (relation "measure id") auto

definition str_int :: "int \<Rightarrow> string" where
  "str_int i = (if i < 0 then CHR ''-'' # str_nat (nat (- i)) else str_nat (nat i))"

text \<open>\<^verbatim>\<open>sep.join(parts)\<close>.\<close>

fun join :: "string \<Rightarrow> string list \<Rightarrow> string" where
  "join sep [] = []"
| "join sep [p] = p"
| "join sep (p # q # ps) = p @ sep @ join sep (q # ps)"

definition API_VER :: string where
  "API_VER = ''v9.2''"

text \<open>\<^verbatim>\<open>RESOURCE\<close> is the module's global, the Dataverse URL without trailing slashes.\<close>

definition build_entity_url ::
  "string \<Rightarrow> string \<Rightarrow> string list option \<Rightarrow> string option \<Rightarrow> int option \<Rightarrow> string" where
  "build_entity_url RESOURCE entity_set select filter' top' =
     (let base = RESOURCE @ ''/api/data/'' @ API_VER @ ''/'' @ entity_set;
          ps = (case select of Some (s # ss) \<Rightarrow> [''$select='' @ join '','' (s # ss)] | _ \<Rightarrow> [])
             @ (case filter' of Some (c # cs) \<Rightarrow> [''$filter='' @ (c # cs)] | _ \<Rightarrow> [])
             @ (case top' of
                  Some t \<Rightarrow> if t \<noteq> 0 then [''$top='' @ str_int t] else []
                | None \<Rightarrow> [])
      in base @ (if ps \<noteq> [] then ''?'' @ join ''&'' ps else []))"

text \<open>
  \<^verbatim>\<open>fetch_all\<close> is a generator. Its state between two \<^verbatim>\<open>next\<close> calls is one of:
  about to request a URL (at the head of \<^verbatim>\<open>while True\<close>); suspended at the
  \<^verbatim>\<open>yield\<close> with the rows of the page not yet yielded and the page's body; finished.
\<close>

datatype fetch_all_state =
    Requesting json
  | Yielding "json list" json
  | Finished

definition fetch_all ::
  "string \<Rightarrow> string \<Rightarrow> string list option \<Rightarrow> string option \<Rightarrow> int \<Rightarrow> fetch_all_state" where
  "fetch_all RESOURCE entity_set select filter' page_size =
     Requesting (JStr (build_entity_url RESOURCE entity_set select filter' (Some page_size)))"

text \<open>
  \<^verbatim>\<open>next(it)\<close>: runs the generator to its next \<^verbatim>\<open>yield\<close> (\<open>Inr (Some row)\<close>), to its
  end (\<open>Inr None\<close>, Python's StopIteration) or to an exception. The \<^verbatim>\<open>while True\<close>
  loop need not end (a server may link empty pages for ever), so the function takes
  fuel, one unit per step of the generator, and is \<open>None\<close> when the fuel runs out.
\<close>

fun next_row ::
  "nat \<Rightarrow> server \<Rightarrow> fetch_all_state \<Rightarrow> world
     \<Rightarrow> ((error + json option) \<times> fetch_all_state \<times> world) option" where
  "next_row 0 srv g w = None"
| "next_row (Suc n) srv Finished w = Some (Inr None, Finished, w)"
| "next_row (Suc n) srv (Yielding (row # rows) data) w =
     Some (Inr (Some row), Yielding rows data, w)"
| "next_row (Suc n) srv (Yielding [] data) w =
     (case dict_get data ''@odata.nextLink'' JNull of
        Inl e \<Rightarrow> Some (Inl e, Finished, w)
      | Inr next_link \<Rightarrow>
          if \<not> truthy next_link then Some (Inr None, Finished, w)
          else next_row n srv (Requesting next_link) w)"
| "next_row (Suc n) srv (Requesting url) w =
     (case dataverse_get srv url None 5 w of
        (Inl e, w1) \<Rightarrow> Some (Inl e, Finished, w1)
      | (Inr data, w1) \<Rightarrow>
          (case dict_get data ''value'' (JArr []) of
             Inl e \<Rightarrow> Some (Inl e, Finished, w1)
           | Inr v \<Rightarrow>
               (case py_iter v of
                  Inl e \<Rightarrow> Some (Inl e, Finished, w1)
                | Inr rows \<Rightarrow> next_row n srv (Yielding rows data) w1)))"

text \<open>\<^verbatim>\<open>list(it)\<close>: every row the generator still yields.\<close>

fun list_rows ::
  "nat \<Rightarrow> server \<Rightarrow> fetch_all_state \<Rightarrow> world \<Rightarrow> ((error + json list) \<times> world) option" where
  "list_rows 0 srv g w = None"
| "list_rows (Suc n) srv g w =
     (case next_row n srv g w of
        None \<Rightarrow> None
      | Some (Inl e, g', w') \<Rightarrow> Some (Inl e, w')
      | Some (Inr None, g', w') \<Rightarrow> Some (Inr [], w')
      | Some (Inr (Some row), g', w') \<Rightarrow>
          (case list_rows n srv g' w' of
             None \<Rightarrow> None
           | Some (Inl e, w'') \<Rightarrow> Some (Inl e, w'')
           | Some (Inr rows, w'') \<Rightarrow> Some (Inr (row # rows), w'')))"

section \<open>From records to a table\<close>

text \<open>\<^verbatim>\<open>d[k] = v\<close> on a dict kept as its items in insertion order.\<close>

fun dict_set :: "(string \<times> 'v) list \<Rightarrow> string \<Rightarrow> 'v \<Rightarrow> (string \<times> 'v) list" where
  "dict_set [] k v = [(k, v)]"
| "dict_set ((k', v') # kvs) k v =
     (if k' = k then (k, v) # kvs else (k', v') # dict_set kvs k v)"

fun is_dict :: "json \<Rightarrow> bool" where
  "is_dict (JObj kvs) = True"
| "is_dict _ = False"

text \<open>
  \<^verbatim>\<open>pandas.json_normalize(rows)\<close>, as pandas 2.2 (the version the notebook pins)
  computes it when called with the list alone: each row goes through
  \<^verbatim>\<open>_normalise_json_ordered\<close>, which keeps the top-level fields that are no dicts and
  then adds the leaves of the nested dicts under dotted keys
  (\<^verbatim>\<open>_normalise_json\<close>, below with its accumulator).
\<close>

definition new_key :: "string \<Rightarrow> string \<Rightarrow> string" where
  "new_key key_string key = (if key_string = [] then key else key_string @ ''.'' @ key)"

fun normalise_json :: "json \<Rightarrow> string \<Rightarrow> (string \<times> json) list \<Rightarrow> (string \<times> json) list"
  and normalise_items ::
    "(string \<times> json) list \<Rightarrow> string \<Rightarrow> (string \<times> json) list \<Rightarrow> (string \<times> json) list" where
  "normalise_json (JObj kvs) key_string acc = normalise_items kvs key_string acc"
| "normalise_json v key_string acc = dict_set acc key_string v"
| "normalise_items [] key_string acc = acc"
| "normalise_items ((k, v) # kvs) key_string acc =
     normalise_items kvs key_string (normalise_json v (new_key key_string k) acc)"

text \<open>
  A row that is no dict and no list normalises to the empty dict. A row that is a list
  is outside what is modelled (pandas then builds positional columns); the results
  below are about rows that are dicts, which is what a record is.
\<close>

fun normalise_row :: "json \<Rightarrow> (string \<times> json) list" where
  "normalise_row (JObj kvs) =
     fold (\<lambda>kv d. dict_set d (fst kv) (snd kv))
       (normalise_items (filter (\<lambda>kv. is_dict (snd kv)) kvs) [] [])
       (filter (\<lambda>kv. \<not> is_dict (snd kv)) kvs)"
| "normalise_row _ = []"

text \<open>
  A data frame, pandas' or Spark's: the column names and, per row, one cell per column.
  A cell is \<open>None\<close> when it is missing (NaN, \<^verbatim>\<open><NA>\<close>, Spark's null). After
  \<^verbatim>\<open>astype("string")\<close> a cell \<open>Some v\<close> stands for the text of \<open>v\<close>; the text itself
  depends on the dtype pandas gave the column and is not modelled.
\<close>

record frame =
  columns :: "string list"
  rows :: "json option list list"

text \<open>\<^verbatim>\<open>DataFrame(list_of_dicts)\<close>: the columns are the keys in order of first appearance.\<close>

definition add_columns :: "string list \<Rightarrow> string list \<Rightarrow> string list" where
  "add_columns cols ks = fold (\<lambda>k cs. if k \<in> set cs then cs else cs @ [k]) ks cols"

definition json_normalize :: "json list \<Rightarrow> frame" where
  "json_normalize recs =
     (let flat = map normalise_row recs;
          cols = fold (\<lambda>d cs. add_columns cs (map fst d)) flat []
      in \<lparr>columns = cols, rows = map (\<lambda>d. map (map_of d) cols) flat\<rparr>)"

text \<open>\<^verbatim>\<open>.astype("string")\<close>: \<^verbatim>\<open>None\<close> and NaN become \<^verbatim>\<open><NA>\<close>.\<close>

definition astype_string :: "frame \<Rightarrow> frame" where
  "astype_string f =
     f\<lparr>rows := map (map (\<lambda>cell. case cell of Some JNull \<Rightarrow> None | c \<Rightarrow> c)) (rows f)\<rparr>"

text \<open>\<^verbatim>\<open>spark.createDataFrame(pdf)\<close> keeps columns and rows; \<^verbatim>\<open><NA>\<close> becomes null.\<close>

definition createDataFrame :: "frame \<Rightarrow> frame" where
  "createDataFrame pdf = pdf"

text \<open>\<^verbatim>\<open>spark.createDataFrame([], T.StructType([]))\<close>.\<close>

definition empty_frame :: frame where
  "empty_frame = \<lparr>columns = [], rows = []\<rparr>"

text \<open>
  \<^verbatim>\<open>sdf.unionByName(sdf2, allowMissingColumns=True)\<close>: the left columns, then the
  columns only the right has; the rows of both, null where a side lacks the column.
\<close>

definition unionByName :: "frame \<Rightarrow> frame \<Rightarrow> frame" where
  "unionByName l r =
     (let extra = filter (\<lambda>c. c \<notin> set (columns l)) (columns r);
          cols = columns l @ extra
      in \<lparr>columns = cols,
          rows = map (\<lambda>row. row @ replicate (length extra) None) (rows l)
               @ map (\<lambda>row. map (\<lambda>c. case map_of (zip (columns r) row) c of
                                          Some cell \<Rightarrow> cell | None \<Rightarrow> None) cols) (rows r)\<rparr>)"

text \<open>
  The sampling loop of \<^verbatim>\<open>dataverse_to_spark\<close>:
  \<^verbatim>\<open>for row in it: sample.append(row); if len(sample) >= sample_rows: break\<close>.
\<close>

fun sample_loop ::
  "nat \<Rightarrow> server \<Rightarrow> int \<Rightarrow> json list \<Rightarrow> fetch_all_state \<Rightarrow> world
     \<Rightarrow> ((error + json list) \<times> fetch_all_state \<times> world) option" where
  "sample_loop 0 srv sample_rows sample it w = None"
| "sample_loop (Suc n) srv sample_rows sample it w =
     (case next_row n srv it w of
        None \<Rightarrow> None
      | Some (Inl e, it', w') \<Rightarrow> Some (Inl e, it', w')
      | Some (Inr None, it', w') \<Rightarrow> Some (Inr sample, it', w')
      | Some (Inr (Some row), it', w') \<Rightarrow>
          (let sample' = sample @ [row]
           in if sample_rows \<le> int (length sample') then Some (Inr sample', it', w')
              else sample_loop n srv sample_rows sample' it' w'))"

text \<open>
  \<^verbatim>\<open>dataverse_to_spark\<close>. The second batch is \<^verbatim>\<open>list(fetch_all(...))\<close>: a new
  generator, which requests the entity set from its first page again.
\<close>

definition dataverse_to_spark ::
  "nat \<Rightarrow> server \<Rightarrow> string \<Rightarrow> string \<Rightarrow> string list option \<Rightarrow> string option \<Rightarrow> int \<Rightarrow> world
     \<Rightarrow> ((error + frame) \<times> world) option" where
  "dataverse_to_spark fuel srv RESOURCE entity_set select filter' sample_rows w =
     (case sample_loop fuel srv sample_rows []
             (fetch_all RESOURCE entity_set select filter' 5000) w of
        None \<Rightarrow> None
      | Some (Inl e, it, w1) \<Rightarrow> Some (Inl e, w1)
      | Some (Inr sample, it, w1) \<Rightarrow>
          if sample = [] then Some (Inr empty_frame, w1)
          else
            (let pdf = astype_string (json_normalize sample);
                 sdf = createDataFrame pdf
             in case list_rows fuel srv (fetch_all RESOURCE entity_set select filter' 5000) w1 of
                  None \<Rightarrow> None
                | Some (Inl e, w2) \<Rightarrow> Some (Inl e, w2)
                | Some (Inr rest, w2) \<Rightarrow>
                    if rest \<noteq> [] then
                      (let pdf2 = astype_string (json_normalize rest);
                           sdf2 = createDataFrame pdf2
                       in Some (Inr (unionByName sdf sdf2), w2))
                    else Some (Inr sdf, w2)))"

section \<open>Notions the statements use\<close>

text \<open>The delay the specification gives for an attempt: \<open>min(30s, 1s * 2^(attempt-1))\<close>.\<close>

definition delay_seconds :: "int \<Rightarrow> rat" where
  "delay_seconds attempt = min 30 (1 * 2 ^ nat (attempt - 1))"

text \<open>The server answers request number \<open>k\<close> with a status on which the code retries.\<close>

definition retry_at :: "server \<Rightarrow> nat \<Rightarrow> request \<Rightarrow> bool" where
  "retry_at srv k rq = (case srv k rq of Inl _ \<Rightarrow> False | Inr r \<Rightarrow> retryable (status_code r))"


text \<open>The four required values, by the name of their widget, and the secret of each.\<close>

definition cfg_fields :: "string list" where
  "cfg_fields = [''client_id'', ''client_secret'', ''tenant_id'', ''dataverse_url'']"

definition secret_key :: "string \<Rightarrow> string" where
  "secret_key field =
     (if field = ''client_id'' then ''dataverse-client-id''
      else if field = ''client_secret'' then ''dataverse-client-secret''
      else if field = ''tenant_id'' then ''dataverse-tenant-id''
      else ''dataverse-url'')"

text \<open>
  A value is supplied, in the words of the specification, when the secret store holds a
  non-empty secret for it or its widget is filled.
\<close>

definition supplied :: "secret_store \<Rightarrow> (string \<Rightarrow> string) \<Rightarrow> string \<Rightarrow> bool" where
  "supplied store widgets field =
     ((case secrets_get store (secret_key field) of Some (c # cs) \<Rightarrow> True | _ \<Rightarrow> False)
      \<or> widgets field \<noteq> [])"

text \<open>
  What \<^verbatim>\<open>get_cfg\<close> resolves a field to: the secret store counts only when it holds the
  three credentials; a secret that is absent or empty gives way to the widget.
\<close>

definition store_usable :: "secret_store \<Rightarrow> bool" where
  "store_usable store =
     (secrets_get store ''dataverse-client-id'' \<noteq> None
      \<and> secrets_get store ''dataverse-client-secret'' \<noteq> None
      \<and> secrets_get store ''dataverse-tenant-id'' \<noteq> None)"

definition cfg_value :: "secret_store \<Rightarrow> (string \<Rightarrow> string) \<Rightarrow> string \<Rightarrow> string" where
  "cfg_value store widgets field =
     (case (if store_usable store then secrets_get store (secret_key field) else None) of
        Some (c # cs) \<Rightarrow> c # cs
      | _ \<Rightarrow> widgets field)"


text \<open>The world after sending further requests.\<close>

definition sent :: "world \<Rightarrow> request list \<Rightarrow> world" where
  "sent w rqs = w\<lparr>requests := requests w @ rqs\<rparr>"

text \<open>
  The server answers request number \<open>k\<close>, for this URL and no parameters, with status 200
  and this parsed body.
\<close>

definition answers :: "server \<Rightarrow> nat \<Rightarrow> json \<Rightarrow> json \<Rightarrow> bool" where
  "answers srv k url body =
     (case srv k (url, None) of
        Inl _ \<Rightarrow> False
      | Inr r \<Rightarrow> status_code r = 200 \<and> json_of r = Some body)"

text \<open>
  Of a body, as \<^verbatim>\<open>fetch_all\<close> reads it: whether \<^verbatim>\<open>data.get("value", [])\<close> can be
  iterated, the rows that gives, and \<^verbatim>\<open>data.get("@odata.nextLink")\<close>.
\<close>

definition page_readable :: "json \<Rightarrow> bool" where
  "page_readable body =
     (case dict_get body ''value'' (JArr []) of
        Inl _ \<Rightarrow> False
      | Inr v \<Rightarrow> (case py_iter v of Inl _ \<Rightarrow> False | Inr _ \<Rightarrow> True))"

definition page_rows :: "json \<Rightarrow> json list" where
  "page_rows body =
     (case dict_get body ''value'' (JArr []) of
        Inl _ \<Rightarrow> []
      | Inr v \<Rightarrow> (case py_iter v of Inl _ \<Rightarrow> [] | Inr rs \<Rightarrow> rs))"

definition page_link :: "json \<Rightarrow> json" where
  "page_link body =
     (case dict_get body ''@odata.nextLink'' JNull of Inl _ \<Rightarrow> JNull | Inr l \<Rightarrow> l)"

text \<open>
  A chain of pages, each a URL and a body: the server answers the requests from number
  \<open>k\<close> on with the bodies in turn, every body but the last links to the URL of the next,
  and the link of the last is absent or falsy.
\<close>

fun served :: "server \<Rightarrow> nat \<Rightarrow> (json \<times> json) list \<Rightarrow> bool" where
  "served srv k [] = True"
| "served srv k ((url, body) # ps) =
     (answers srv k url body \<and> page_readable body
      \<and> (case ps of
            [] \<Rightarrow> \<not> truthy (page_link body)
          | p # _ \<Rightarrow> truthy (page_link body) \<and> page_link body = fst p)
      \<and> served srv (Suc k) ps)"

text \<open>The same for a generator that holds the body of a page and has pages to come.\<close>

definition continues :: "server \<Rightarrow> nat \<Rightarrow> json \<Rightarrow> (json \<times> json) list \<Rightarrow> bool" where
  "continues srv k body ps =
     (page_readable body
      \<and> (case ps of
            [] \<Rightarrow> \<not> truthy (page_link body)
          | p # _ \<Rightarrow> truthy (page_link body) \<and> page_link body = fst p)
      \<and> served srv k ps)"

definition all_rows :: "(json \<times> json) list \<Rightarrow> json list" where
  "all_rows ps = concat (map (\<lambda>p. page_rows (snd p)) ps)"

definition page_requests :: "(json \<times> json) list \<Rightarrow> request list" where
  "page_requests ps = map (\<lambda>p. (fst p, None)) ps"

text \<open>One round of \<^verbatim>\<open>list(it)\<close>, given the outcome of \<^verbatim>\<open>next(it)\<close> and the rounds to come.\<close>

definition list_step ::
  "((error + json option) \<times> fetch_all_state \<times> world) option
     \<Rightarrow> (fetch_all_state \<Rightarrow> world \<Rightarrow> ((error + json list) \<times> world) option)
     \<Rightarrow> ((error + json list) \<times> world) option" where
  "list_step nr k =
     (case nr of
        None \<Rightarrow> None
      | Some (Inl e, g', w') \<Rightarrow> Some (Inl e, w')
      | Some (Inr None, g', w') \<Rightarrow> Some (Inr [], w')
      | Some (Inr (Some row), g', w') \<Rightarrow>
          (case k g' w' of
             None \<Rightarrow> None
           | Some (Inl e, w'') \<Rightarrow> Some (Inl e, w'')
           | Some (Inr rs, w'') \<Rightarrow> Some (Inr (row # rs), w'')))"

text \<open>
  The pages of claim C3: a URL and a body that is an object whose \<^verbatim>\<open>value\<close> is an
  array; the \<^verbatim>\<open>@odata.nextLink\<close> of each page but the last is the non-empty URL of the
  next page, and the last page has no such key.
\<close>

definition value_array :: "(string \<times> json) list \<Rightarrow> json list" where
  "value_array kvs = (case map_of kvs ''value'' of Some (JArr rs) \<Rightarrow> rs | _ \<Rightarrow> [])"

fun odata_pages :: "server \<Rightarrow> nat \<Rightarrow> (string \<times> (string \<times> json) list) list \<Rightarrow> bool" where
  "odata_pages srv k [] = True"
| "odata_pages srv k ((url, kvs) # ps) =
     (answers srv k (JStr url) (JObj kvs)
      \<and> (case map_of kvs ''value'' of Some (JArr rs) \<Rightarrow> True | _ \<Rightarrow> False)
      \<and> map_of kvs ''@odata.nextLink'' = (case ps of [] \<Rightarrow> None | p # _ \<Rightarrow> Some (JStr (fst p)))
      \<and> (case ps of [] \<Rightarrow> True | p # _ \<Rightarrow> fst p \<noteq> [])
      \<and> odata_pages srv (Suc k) ps)"

definition link_absent_or_falsy :: "(string \<times> json) list \<Rightarrow> bool" where
  "link_absent_or_falsy kvs =
     (case map_of kvs ''@odata.nextLink'' of None \<Rightarrow> True | Some l \<Rightarrow> \<not> truthy l)"


text \<open>
  The entity set yields the records \<open>xs\<close> each time it is fetched: whatever was sent
  before, \<^verbatim>\<open>list\<close> of the generator returns \<open>xs\<close>.
\<close>

definition yields :: "nat \<Rightarrow> server \<Rightarrow> fetch_all_state \<Rightarrow> json list \<Rightarrow> bool" where
  "yields fuel srv g xs = (\<forall>w. \<exists>w'. list_rows fuel srv g w = Some (Inr xs, w'))"

text \<open>The Spark frame \<^verbatim>\<open>dataverse_to_spark\<close> makes of a batch of records.\<close>

definition to_frame :: "json list \<Rightarrow> frame" where
  "to_frame recs = createDataFrame (astype_string (json_normalize recs))"

text \<open>The cell of row \<open>i\<close> in the column named \<open>c\<close>; \<open>None\<close> is null.\<close>

definition cell :: "frame \<Rightarrow> nat \<Rightarrow> string \<Rightarrow> json option" where
  "cell f i c = (case map_of (zip (columns f) (rows f ! i)) c of Some x \<Rightarrow> x | None \<Rightarrow> None)"





section \<open>Concrete servers and inputs\<close>

definition busy_server :: server where
  "busy_server k rq = Inr \<lparr>status_code = 503, json_of = None, text_of = ''busy''\<rparr>"

definition recovering_server :: server where
  "recovering_server k rq =
     (if k < 2 then Inr \<lparr>status_code = 503, json_of = None, text_of = ''busy''\<rparr>
      else Inr \<lparr>status_code = 200, json_of = Some (JObj []), text_of = ''{}''\<rparr>)"

definition missing_server :: server where
  "missing_server k rq = Inr \<lparr>status_code = 404, json_of = None, text_of = ''not found''\<rparr>"

definition world0 :: world where
  "world0 = \<lparr>requests = [], sleeps = []\<rparr>"

definition partial_store :: secret_store where
  "partial_store = Some (map_of [(''dataverse-client-id'', ''app-1'')])"

definition partial_widgets :: "string \<Rightarrow> string" where
  "partial_widgets field = (if field = ''client_id'' then [] else ''from-widget'')"

definition full_store :: secret_store where
  "full_store = Some (map_of [(''dataverse-client-id'', ''app-1''),
     (''dataverse-client-secret'', ''s3cret''), (''dataverse-tenant-id'', ''tenant-1'')])"

definition url_widgets :: "string \<Rightarrow> string" where
  "url_widgets field = (if field = ''dataverse_url'' then ''https://org.example'' else ''w'')"

definition cached_msal :: "string \<Rightarrow> string \<Rightarrow> string \<Rightarrow> msal_app" where
  "cached_msal client_id credential authority =
     \<lparr>acquire_token_silent = (\<lambda>scopes. None),
      acquire_token_for_client = (\<lambda>scopes. [(''token_type'', JStr ''Bearer''), (''access_token'', JStr ''tok'')])\<rparr>"

definition denied_msal :: "string \<Rightarrow> string \<Rightarrow> string \<Rightarrow> msal_app" where
  "denied_msal client_id credential authority =
     \<lparr>acquire_token_silent = (\<lambda>scopes. Some []),
      acquire_token_for_client = (\<lambda>scopes. [(''error'', JStr ''invalid_client'')])\<rparr>"

definition first_url :: string where
  "first_url = ''https://org.example/api/data/v9.2/zz_Recipe?$top=5000''"

definition next_url :: string where
  "next_url = ''https://org.example/api/data/v9.2/zz_Recipe?$skiptoken=2''"

definition recipe1 :: json where
  "recipe1 = JObj [(''zz_recipeid'', JStr ''a''), (''zz_name'', JStr ''glue'')]"

definition recipe2 :: json where
  "recipe2 = JObj [(''zz_recipeid'', JStr ''b''), (''owner'', JObj [(''id'', JInt 7)])]"

definition recipe3 :: json where
  "recipe3 = JObj [(''zz_recipeid'', JStr ''c''), (''zz_grade'', JNull)]"

definition page1 :: "(string \<times> json) list" where
  "page1 = [(''value'', JArr [recipe1, recipe2]), (''@odata.nextLink'', JStr next_url)]"

definition page2 :: "(string \<times> json) list" where
  "page2 = [(''value'', JArr [recipe3])]"

definition ok :: "json \<Rightarrow> string + response" where
  "ok body = Inr \<lparr>status_code = 200, json_of = Some body, text_of = []\<rparr>"

definition two_page_server :: server where
  "two_page_server k rq =
     (if fst rq = JStr first_url then ok (JObj page1)
      else if fst rq = JStr next_url then ok (JObj page2)
      else Inr \<lparr>status_code = 404, json_of = None, text_of = ''not found''\<rparr>)"

definition bare_server :: server where
  "bare_server k rq = ok (JObj [(''@odata.context'', JStr ''ctx''), (''@odata.nextLink'', JStr [])])"

definition empty_server :: server where
  "empty_server k rq = ok (JObj [(''@odata.context'', JStr ''ctx''), (''value'', JArr [])])"

definition pair_server :: server where
  "pair_server k rq =
     ok (JObj [(''value'', JArr [JObj [(''zz_recipeid'', JStr ''a'')],
                                  JObj [(''owner'', JObj [(''id'', JInt 7)])]])])"

section \<open>The retry policy\<close>

lemma backoff_delay_in_range:
  "1 \<le> a \<Longrightarrow> a \<le> 1024 \<Longrightarrow> backoff_delay a = Inr (delay_seconds a)"
  by (simp add: backoff_delay_def delay_seconds_def power_int_def)

lemma backoff_in_range:
  "1 \<le> a \<Longrightarrow> a \<le> 1024 \<Longrightarrow> backoff a w = (Inr (), w\<lparr>sleeps := sleeps w @ [delay_seconds a]\<rparr>)"
  by (simp add: backoff_def backoff_delay_in_range)

lemma retryable_not_200: "retryable s \<Longrightarrow> s \<noteq> 200"
  by (auto simp: retryable_def)

lemma loop_retry_step:
  assumes "retry_at srv (length (requests w)) (url, ps)" "1 \<le> a" "a \<le> 1024"
  shows "dataverse_get_loop srv url ps (a # as) w =
         dataverse_get_loop srv url ps as
           (w\<lparr>requests := requests w @ [(url, ps)], sleeps := sleeps w @ [delay_seconds a]\<rparr>)"
  using assms
  by (auto simp: retry_at_def SESSION_get_def backoff_in_range retryable_not_200 split: sum.splits)

lemma loop_retry_prefix:
  "(\<forall>i < length pre. retry_at srv (length (requests w) + i) (url, ps)) \<Longrightarrow>
   (\<forall>a \<in> set pre. 1 \<le> a \<and> a \<le> 1024) \<Longrightarrow>
   dataverse_get_loop srv url ps (pre @ rest) w =
   dataverse_get_loop srv url ps rest
     (w\<lparr>requests := requests w @ replicate (length pre) (url, ps),
        sleeps := sleeps w @ map delay_seconds pre\<rparr>)"
proof (induction pre arbitrary: w)
  case Nil
  then show ?case by simp
next
  case (Cons a pre)
  let ?w1 = "w\<lparr>requests := requests w @ [(url, ps)], sleeps := sleeps w @ [delay_seconds a]\<rparr>"
  have first: "retry_at srv (length (requests w)) (url, ps)"
    using Cons.prems(1) by (metis add.right_neutral length_greater_0_conv list.distinct(1))
  have later: "\<forall>i < length pre. retry_at srv (length (requests ?w1) + i) (url, ps)"
    using Cons.prems(1) by (auto dest: spec [where x = "Suc i" for i])
  have "dataverse_get_loop srv url ps ((a # pre) @ rest) w =
        dataverse_get_loop srv url ps (pre @ rest) ?w1"
    using loop_retry_step [OF first] Cons.prems(2) by simp
  also have "\<dots> = dataverse_get_loop srv url ps rest
     (?w1\<lparr>requests := requests ?w1 @ replicate (length pre) (url, ps),
        sleeps := sleeps ?w1 @ map delay_seconds pre\<rparr>)"
    using Cons.IH [OF later] Cons.prems(2) by simp
  finally show ?case by (simp add: replicate_app_Cons_same)
qed

lemma dataverse_get_after_retries:
  assumes "1 \<le> m" "m \<le> 1025" "m \<le> max_retries"
    and "\<forall>i < nat (m - 1). retry_at srv (length (requests w) + i) (url, ps)"
  shows "dataverse_get srv url ps max_retries w =
         dataverse_get_loop srv url ps [m..max_retries]
           (w\<lparr>requests := requests w @ replicate (nat (m - 1)) (url, ps),
              sleeps := sleeps w @ map delay_seconds [1..m - 1]\<rparr>)"
proof -
  have split: "[1..max_retries] = [1..m - 1] @ [m..max_retries]"
    using assms(1,3) by (simp add: upto_split1)
  have len: "length [1..m - 1] = nat (m - 1)"
    by simp
  have range: "\<forall>a \<in> set [1..m - 1]. 1 \<le> a \<and> a \<le> 1024"
    using assms(2) by auto
  show ?thesis
    unfolding dataverse_get_def split
    using loop_retry_prefix [of "[1..m - 1]" srv w url ps "[m..max_retries]"] assms(4) range
    by (simp add: len)
qed

lemma dataverse_get_decided:
  assumes "1 \<le> m" "m \<le> 1025" "m \<le> max_retries"
    and "\<forall>i < nat (m - 1). retry_at srv (length (requests w) + i) (url, ps)"
    and "srv (length (requests w) + nat (m - 1)) (url, ps) = Inr r"
    and "\<not> retryable (status_code r)"
  shows "dataverse_get srv url ps max_retries w =
     (if status_code r = 200 then
        (case json_of r of None \<Rightarrow> Inl JSONDecodeError | Some j \<Rightarrow> Inr j)
      else Inl (GetFailed (status_code r)
             (case json_of r of Some j \<Rightarrow> DetailsJson j | None \<Rightarrow> DetailsText (text_of r))),
      w\<lparr>requests := requests w @ replicate (nat m) (url, ps),
        sleeps := sleeps w @ map delay_seconds [1..m - 1]\<rparr>)"
proof -
  have m: "nat m = Suc (nat (m - 1))" using assms(1) by simp
  have "dataverse_get srv url ps max_retries w =
         dataverse_get_loop srv url ps (m # [m + 1..max_retries])
           (w\<lparr>requests := requests w @ replicate (nat (m - 1)) (url, ps),
              sleeps := sleeps w @ map delay_seconds [1..m - 1]\<rparr>)"
    using dataverse_get_after_retries [of m max_retries srv w url ps] assms(1-4)
    by (simp add: upto_rec1)
  then show ?thesis
    using assms(5,6)
    by (auto simp: SESSION_get_def m replicate_append_same split: option.splits)
qed

lemma dataverse_get_exhausted:
  assumes "max_retries \<le> 1024"
    and "\<forall>i < nat max_retries. retry_at srv (length (requests w) + i) (url, ps)"
  shows "dataverse_get srv url ps max_retries w =
     (Inl RetriesExceeded,
      w\<lparr>requests := requests w @ replicate (nat max_retries) (url, ps),
        sleeps := sleeps w @ map delay_seconds [1..max_retries]\<rparr>)"
proof -
  have len: "length [1..max_retries] = nat max_retries"
    by simp
  have range: "\<forall>a \<in> set [1..max_retries]. 1 \<le> a \<and> a \<le> 1024"
    using assms(1) by simp
  have pre: "\<forall>i < length [1..max_retries]. retry_at srv (length (requests w) + i) (url, ps)"
    using assms(2) by (simp only: len)
  have "dataverse_get_loop srv url ps ([1..max_retries] @ []) w =
        dataverse_get_loop srv url ps []
          (w\<lparr>requests := requests w @ replicate (length [1..max_retries]) (url, ps),
             sleeps := sleeps w @ map delay_seconds [1..max_retries]\<rparr>)"
    using pre range by (rule loop_retry_prefix)
  then show ?thesis
    unfolding dataverse_get_def by (simp only: append_Nil2 len dataverse_get_loop.simps)
qed

text \<open>
  The retry policy of \<^verbatim>\<open>dataverse_get\<close>, for every sequence of responses to the attempts
  of one call. If the attempts before the \<open>m\<close>-th (\<open>m \<le> max_retries\<close>, \<open>m \<le> 1025\<close>) all
  get a status in \<open>{429, 500, 502, 503, 504}\<close> and the \<open>m\<close>-th gets 200 with a JSON body,
  the call returns that body after exactly \<open>m\<close> requests, having slept
  \<open>min 30 (2^(a-1))\<close> seconds after each attempt \<open>a < m\<close>; if the \<open>m\<close>-th gets any other
  status outside the set, the call fails at once with that status, after \<open>m\<close> requests and
  the same sleeps. If all \<open>max_retries \<le> 1024\<close> attempts get a status in the set, the call
  raises "Exceeded retries" after exactly \<open>max_retries\<close> requests; the code has then slept
  after every attempt, the last one included.
\<close>

theorem dataverse_get_retry_policy:
  "(max_retries \<le> 1024
      \<and> (\<forall>i < nat max_retries. retry_at srv (length (requests w) + i) (url, ps)) \<longrightarrow>
      dataverse_get srv url ps max_retries w =
        (Inl RetriesExceeded,
         w\<lparr>requests := requests w @ replicate (nat max_retries) (url, ps),
           sleeps := sleeps w @ map delay_seconds [1..max_retries]\<rparr>))
   \<and> (1 \<le> m \<and> m \<le> max_retries \<and> m \<le> 1025
      \<and> (\<forall>i < nat (m - 1). retry_at srv (length (requests w) + i) (url, ps))
      \<and> srv (length (requests w) + nat (m - 1)) (url, ps) = Inr r
      \<and> status_code r = 200 \<and> json_of r = Some j \<longrightarrow>
      dataverse_get srv url ps max_retries w =
        (Inr j,
         w\<lparr>requests := requests w @ replicate (nat m) (url, ps),
           sleeps := sleeps w @ map delay_seconds [1..m - 1]\<rparr>))
   \<and> (1 \<le> m \<and> m \<le> max_retries \<and> m \<le> 1025
      \<and> (\<forall>i < nat (m - 1). retry_at srv (length (requests w) + i) (url, ps))
      \<and> srv (length (requests w) + nat (m - 1)) (url, ps) = Inr r
      \<and> status_code r \<notin> {200, 429, 500, 502, 503, 504} \<longrightarrow>
      dataverse_get srv url ps max_retries w =
        (Inl (GetFailed (status_code r)
           (case json_of r of Some j \<Rightarrow> DetailsJson j | None \<Rightarrow> DetailsText (text_of r))),
         w\<lparr>requests := requests w @ replicate (nat m) (url, ps),
           sleeps := sleeps w @ map delay_seconds [1..m - 1]\<rparr>))"
proof (intro conjI impI)
  assume "max_retries \<le> 1024
      \<and> (\<forall>i < nat max_retries. retry_at srv (length (requests w) + i) (url, ps))"
  then show "dataverse_get srv url ps max_retries w =
        (Inl RetriesExceeded,
         w\<lparr>requests := requests w @ replicate (nat max_retries) (url, ps),
           sleeps := sleeps w @ map delay_seconds [1..max_retries]\<rparr>)"
    using dataverse_get_exhausted [of max_retries srv w url ps] by blast
next
  assume h: "1 \<le> m \<and> m \<le> max_retries \<and> m \<le> 1025
      \<and> (\<forall>i < nat (m - 1). retry_at srv (length (requests w) + i) (url, ps))
      \<and> srv (length (requests w) + nat (m - 1)) (url, ps) = Inr r
      \<and> status_code r = 200 \<and> json_of r = Some j"
  then have "\<not> retryable (status_code r)" by (simp add: retryable_def)
  with h show "dataverse_get srv url ps max_retries w =
        (Inr j,
         w\<lparr>requests := requests w @ replicate (nat m) (url, ps),
           sleeps := sleeps w @ map delay_seconds [1..m - 1]\<rparr>)"
    using dataverse_get_decided [of m max_retries srv w url ps r] by simp
next
  assume h: "1 \<le> m \<and> m \<le> max_retries \<and> m \<le> 1025
      \<and> (\<forall>i < nat (m - 1). retry_at srv (length (requests w) + i) (url, ps))
      \<and> srv (length (requests w) + nat (m - 1)) (url, ps) = Inr r
      \<and> status_code r \<notin> {200, 429, 500, 502, 503, 504}"
  then have nr: "\<not> retryable (status_code r)" by (simp add: retryable_def)
  from h nr show "dataverse_get srv url ps max_retries w =
        (Inl (GetFailed (status_code r)
           (case json_of r of Some j \<Rightarrow> DetailsJson j | None \<Rightarrow> DetailsText (text_of r))),
         w\<lparr>requests := requests w @ replicate (nat m) (url, ps),
           sleeps := sleeps w @ map delay_seconds [1..m - 1]\<rparr>)"
    using dataverse_get_decided [of m max_retries srv w url ps r] by simp
qed

text \<open>
  The theorem at three servers: two 503 then a 200; 503 for ever; a 404.
\<close>

theorem dataverse_get_retry_policy_witness:
  "dataverse_get recovering_server (JStr ''u'') None 5 world0 =
     (Inr (JObj []),
      \<lparr>requests = [(JStr ''u'', None), (JStr ''u'', None), (JStr ''u'', None)], sleeps = [1, 2]\<rparr>)
   \<and> dataverse_get busy_server (JStr ''u'') None 5 world0 =
     (Inl RetriesExceeded,
      \<lparr>requests = [(JStr ''u'', None), (JStr ''u'', None), (JStr ''u'', None),
                   (JStr ''u'', None), (JStr ''u'', None)],
       sleeps = [1, 2, 4, 8, 16]\<rparr>)
   \<and> fst (dataverse_get missing_server (JStr ''u'') None 5 world0) =
       Inl (GetFailed 404 (DetailsText ''not found''))"
proof -
  have a: "(5::int) \<le> 1024
      \<and> (\<forall>i < nat 5. retry_at busy_server (length (requests world0) + i) (JStr ''u'', None))"
    by (simp add: retry_at_def busy_server_def retryable_def)
  have b: "(1::int) \<le> 3 \<and> (3::int) \<le> 5 \<and> (3::int) \<le> 1025
      \<and> (\<forall>i < nat (3 - 1). retry_at recovering_server (length (requests world0) + i) (JStr ''u'', None))
      \<and> recovering_server (length (requests world0) + nat (3 - 1)) (JStr ''u'', None)
           = Inr \<lparr>status_code = 200, json_of = Some (JObj []), text_of = ''{}''\<rparr>
      \<and> status_code \<lparr>status_code = 200, json_of = Some (JObj []), text_of = ''{}''\<rparr> = 200
      \<and> json_of \<lparr>status_code = 200, json_of = Some (JObj []), text_of = ''{}''\<rparr> = Some (JObj [])"
    by (simp add: retry_at_def recovering_server_def retryable_def world0_def)
  have c: "(1::int) \<le> 1 \<and> (1::int) \<le> 5 \<and> (1::int) \<le> 1025
      \<and> (\<forall>i < nat (1 - 1). retry_at missing_server (length (requests world0) + i) (JStr ''u'', None))
      \<and> missing_server (length (requests world0) + nat (1 - 1)) (JStr ''u'', None)
           = Inr \<lparr>status_code = 404, json_of = None, text_of = ''not found''\<rparr>
      \<and> status_code \<lparr>status_code = 404, json_of = None, text_of = ''not found''\<rparr>
           \<notin> {200, 429, 500, 502, 503, 504}"
    by (simp add: missing_server_def)
  have d: "map delay_seconds [1..5] = [1, 2, 4, 8, 16]" "map delay_seconds [1..3 - 1] = [1, 2]"
    by (simp_all add: delay_seconds_def upto.simps)
  have e: "replicate (nat 5) x = [x, x, x, x, x]" "replicate (nat 3) x = [x, x, x]" for x :: request
    by (simp_all add: eval_nat_numeral)
  from dataverse_get_retry_policy [of 5 busy_server world0 "JStr ''u''" None] a
  have 1: "dataverse_get busy_server (JStr ''u'') None 5 world0 =
     (Inl RetriesExceeded,
      world0\<lparr>requests := requests world0 @ replicate (nat 5) (JStr ''u'', None),
        sleeps := sleeps world0 @ map delay_seconds [1..5]\<rparr>)"
    by blast
  from dataverse_get_retry_policy [of 5 recovering_server world0 "JStr ''u''" None 3
      "\<lparr>status_code = 200, json_of = Some (JObj []), text_of = ''{}''\<rparr>" "JObj []"] b
  have 2: "dataverse_get recovering_server (JStr ''u'') None 5 world0 =
     (Inr (JObj []),
      world0\<lparr>requests := requests world0 @ replicate (nat 3) (JStr ''u'', None),
        sleeps := sleeps world0 @ map delay_seconds [1..3 - 1]\<rparr>)"
    by blast
  from dataverse_get_retry_policy [of 5 missing_server world0 "JStr ''u''" None 1
      "\<lparr>status_code = 404, json_of = None, text_of = ''not found''\<rparr>"] c
  have 3: "fst (dataverse_get missing_server (JStr ''u'') None 5 world0) =
       Inl (GetFailed 404 (DetailsText ''not found''))"
    by simp
  show ?thesis
    unfolding 1 2 3 d e by (simp add: world0_def)
qed

text \<open>
  Claim C4, at an input where the code breaks it. With \<open>max_retries = 1025\<close> and a server
  that answers 503 to every request, all 1025 attempts get a retryable status, and the
  claim has the call fail with "Exceeded retries" after sleeps capped at 30 seconds. The
  code sends the 1025 requests, but the backoff after attempt 1025 computes
  \<^verbatim>\<open>1.0 * 2**1024\<close> before taking the minimum with the cap: the call ends with
  OverflowError.
\<close>

theorem dataverse_get_overflow_at_1025:
  "fst (dataverse_get busy_server (JStr ''u'') None 1025 world0) = Inl OverflowError
   \<and> length (requests (snd (dataverse_get busy_server (JStr ''u'') None 1025 world0))) = 1025"
proof -
  have retry: "\<forall>i < nat (1025 - 1). retry_at busy_server (length (requests world0) + i) (JStr ''u'', None)"
    by (simp add: retry_at_def busy_server_def retryable_def)
  define v where "v = world0\<lparr>requests := requests world0 @ replicate (nat (1025 - 1)) (JStr ''u'', None),
              sleeps := sleeps world0 @ map delay_seconds [1..1025 - 1]\<rparr>"
  have run: "dataverse_get busy_server (JStr ''u'') None 1025 world0 =
         dataverse_get_loop busy_server (JStr ''u'') None [1025..1025] v"
    unfolding v_def using retry by (intro dataverse_get_after_retries) simp_all
  have last: "dataverse_get_loop busy_server (JStr ''u'') None [1025..1025] u =
      (Inl OverflowError, u\<lparr>requests := requests u @ [(JStr ''u'', None)]\<rparr>)" for u
    by (simp add: SESSION_get_def busy_server_def retryable_def backoff_def backoff_delay_def)
  have len: "length (requests v) = 1024"
    by (simp add: v_def world0_def)
  show ?thesis
    unfolding run last using len by simp
qed

text \<open>
  Claim C5. When the first response of a \<^verbatim>\<open>dataverse_get\<close> call (one that attempts at
  all: \<open>max_retries \<ge> 1\<close>) has a status that is neither 200 nor one of 429, 500, 502,
  503, 504, the call raises "GET failed" with that status and the response's JSON body,
  or its text when the body does not parse; exactly one request was sent and nothing
  was slept.
\<close>

theorem dataverse_get_fatal_status:
  assumes "1 \<le> max_retries"
    and "srv (length (requests w)) (url, ps) = Inr r"
    and "status_code r \<notin> {200, 429, 500, 502, 503, 504}"
  shows "dataverse_get srv url ps max_retries w =
     (Inl (GetFailed (status_code r)
        (case json_of r of Some j \<Rightarrow> DetailsJson j | None \<Rightarrow> DetailsText (text_of r))),
      w\<lparr>requests := requests w @ [(url, ps)]\<rparr>)"
proof -
  have nr: "\<not> retryable (status_code r)" "status_code r \<noteq> 200"
    using assms(3) by (simp_all add: retryable_def)
  show ?thesis
    using dataverse_get_decided [of 1 max_retries srv w url ps r] assms(1,2) nr
    by simp
qed

text \<open>The theorem at a server answering 404 with a body that is not JSON.\<close>

theorem dataverse_get_fatal_status_witness:
  "dataverse_get missing_server (JStr ''u'') None 5 world0 =
     (Inl (GetFailed 404 (DetailsText ''not found'')),
      \<lparr>requests = [(JStr ''u'', None)], sleeps = []\<rparr>)"
proof -
  have a: "(1::int) \<le> 5" by simp
  have b: "missing_server (length (requests world0)) (JStr ''u'', None)
             = Inr \<lparr>status_code = 404, json_of = None, text_of = ''not found''\<rparr>"
    by (simp add: missing_server_def)
  have c: "status_code \<lparr>status_code = 404, json_of = None, text_of = ''not found''\<rparr>
             \<notin> {200, 429, 500, 502, 503, 504}"
    by simp
  from dataverse_get_fatal_status [of 5 missing_server world0 "JStr ''u''" None, OF a b c]
  show ?thesis
    by (simp add: world0_def)
qed

section \<open>Configuration and token\<close>

lemma read_secrets_usable:
  "store_usable store \<Longrightarrow>
   read_secrets store =
     (secrets_get store ''dataverse-client-id'', secrets_get store ''dataverse-client-secret'',
      secrets_get store ''dataverse-tenant-id'', secrets_get store ''dataverse-url'')"
  by (auto simp: store_usable_def read_secrets_def split: option.splits)

lemma read_secrets_unusable:
  "\<not> store_usable store \<Longrightarrow> read_secrets store = (None, None, None, None)"
  by (auto simp: store_usable_def read_secrets_def split: option.splits)

lemma read_secrets_cfg_value:
  "read_secrets store = (cid0, csec0, tid0, url0) \<Longrightarrow>
   py_or cid0 (widgets ''client_id'') = cfg_value store widgets ''client_id''
   \<and> py_or csec0 (widgets ''client_secret'') = cfg_value store widgets ''client_secret''
   \<and> py_or tid0 (widgets ''tenant_id'') = cfg_value store widgets ''tenant_id''
   \<and> py_or url0 (widgets ''dataverse_url'') = cfg_value store widgets ''dataverse_url''"
proof (cases "store_usable store")
  case True
  assume "read_secrets store = (cid0, csec0, tid0, url0)"
  with True show ?thesis
    by (simp add: read_secrets_usable py_or_def cfg_value_def secret_key_def)
next
  case False
  assume "read_secrets store = (cid0, csec0, tid0, url0)"
  with False show ?thesis
    by (simp add: read_secrets_unusable py_or_def cfg_value_def)
qed

text \<open>
  Claim C7, as amended. \<^verbatim>\<open>get_cfg\<close> uses the secret store only when the lookups of
  client id, client secret and tenant id all succeed; then each of the four secrets
  that is found and not empty is the value, and every other value is the widget's. It
  raises the configuration error exactly when one of the four values so resolved is
  empty; the error lists every such field, in the order client_id, client_secret,
  tenant_id, dataverse_url; otherwise it returns the four resolved values.
\<close>

theorem get_cfg_resolution:
  "get_cfg store widgets =
     (if \<forall>field \<in> set cfg_fields. cfg_value store widgets field \<noteq> []
      then Inr (cfg_value store widgets ''client_id'', cfg_value store widgets ''client_secret'',
                cfg_value store widgets ''tenant_id'', cfg_value store widgets ''dataverse_url'')
      else Inl (ConfigMissing (filter (\<lambda>field. cfg_value store widgets field = []) cfg_fields)))"
proof -
  obtain cid0 csec0 tid0 url0 where r: "read_secrets store = (cid0, csec0, tid0, url0)"
    by (cases "read_secrets store") auto
  note v = read_secrets_cfg_value [OF r, of widgets]
  show ?thesis
    unfolding get_cfg_def r cfg_fields_def
    by (simp add: v Let_def)
qed

text \<open>
  The theorem at a store holding the three credentials and no URL: the credentials come
  from the store, although every widget is filled, and the URL from its widget.
\<close>

theorem get_cfg_resolution_witness:
  "get_cfg full_store url_widgets = Inr (''app-1'', ''s3cret'', ''tenant-1'', ''https://org.example'')"
proof -
  have u: "store_usable full_store"
    by (simp add: store_usable_def full_store_def secrets_get_def)
  have v: "cfg_value full_store url_widgets ''client_id'' = ''app-1''"
    "cfg_value full_store url_widgets ''client_secret'' = ''s3cret''"
    "cfg_value full_store url_widgets ''tenant_id'' = ''tenant-1''"
    "cfg_value full_store url_widgets ''dataverse_url'' = ''https://org.example''"
    by (simp_all add: cfg_value_def u secret_key_def)
       (simp_all add: full_store_def secrets_get_def url_widgets_def)
  show ?thesis
    using get_cfg_resolution [of full_store url_widgets]
    by (simp add: cfg_fields_def v)
qed

text \<open>
  Claim C7 as stated fails: here the secret store supplies the client id and the
  widgets supply the other three values, so each of the four is supplied by one of the
  two sources, and yet \<^verbatim>\<open>get_cfg\<close> raises, reporting the client id as missing. The
  lookup of the client secret raised, which discarded the client id already read.
\<close>

theorem get_cfg_discards_secret_counterexample:
  "supplied partial_store partial_widgets ''client_id''
   \<and> supplied partial_store partial_widgets ''client_secret''
   \<and> supplied partial_store partial_widgets ''tenant_id''
   \<and> supplied partial_store partial_widgets ''dataverse_url''
   \<and> get_cfg partial_store partial_widgets = Inl (ConfigMissing [''client_id''])"
  by (simp add: supplied_def partial_store_def partial_widgets_def secrets_get_def secret_key_def
      get_cfg_def read_secrets_def py_or_def)

text \<open>
  Claim C9. \<^verbatim>\<open>get_access_token\<close> first calls \<^verbatim>\<open>acquire_token_silent\<close>, and calls
  \<^verbatim>\<open>acquire_token_for_client\<close> exactly when the silent call returned \<^verbatim>\<open>None\<close> or an
  empty dict. With \<open>result\<close> the silent result if it was used and the client-credentials
  result otherwise, the function raises exactly when \<open>result\<close> has no key
  \<^verbatim>\<open>access_token\<close>; the error then carries \<open>result\<close>; otherwise the value returned is
  \<open>result["access_token"]\<close>.
\<close>

theorem get_access_token_flow:
  "(let app = msal client_id client_secret (''https://login.microsoftonline.com/'' @ tenant_id);
        silent = acquire_token_silent app [scope];
        missed = (silent = None \<or> silent = Some []);
        result = (if missed then acquire_token_for_client app [scope] else the silent);
        out = get_access_token msal client_id client_secret tenant_id scope
    in snd out = (if missed then [AcquireTokenSilent [scope], AcquireTokenForClient [scope]]
                  else [AcquireTokenSilent [scope]])
       \<and> (isl (fst out) \<longleftrightarrow> ''access_token'' \<notin> fst ` set result)
       \<and> (isl (fst out) \<longrightarrow> fst out = Inl (TokenAcquisitionFailed result))
       \<and> (\<not> isl (fst out) \<longrightarrow> map_of result ''access_token'' = Some (projr (fst out))))"
proof -
  have key: "(map_of kvs k = None) = (k \<notin> fst ` set kvs)" for kvs :: "(string \<times> json) list" and k
    by (simp add: map_of_eq_None_iff)
  have some: "map_of kvs k = Some v \<Longrightarrow> k \<in> fst ` set kvs"
    for kvs :: "(string \<times> json) list" and k v
    using key [of kvs k] by simp
  show ?thesis
    unfolding Let_def get_access_token_def
    by (auto simp: key dest: some split: option.splits list.splits)
qed

text \<open>
  The theorem at a provider whose cache is empty and whose exchange returns a token,
  and at one whose silent call returns an empty dict and whose exchange is refused.
\<close>

theorem get_access_token_flow_witness:
  "get_access_token cached_msal ''app-1'' ''s3cret'' ''tenant-1'' ''https://org.example/.default'' =
     (Inr (JStr ''tok''),
      [AcquireTokenSilent [''https://org.example/.default''],
       AcquireTokenForClient [''https://org.example/.default'']])
   \<and> get_access_token denied_msal ''app-1'' ''s3cret'' ''tenant-1'' ''https://org.example/.default'' =
     (Inl (TokenAcquisitionFailed [(''error'', JStr ''invalid_client'')]),
      [AcquireTokenSilent [''https://org.example/.default''],
       AcquireTokenForClient [''https://org.example/.default'']])"
proof -
  have a: "get_access_token cached_msal ''app-1'' ''s3cret'' ''tenant-1'' ''https://org.example/.default'' = (x, y)
           \<Longrightarrow> x = Inr (JStr ''tok'') \<and> y = [AcquireTokenSilent [''https://org.example/.default''],
       AcquireTokenForClient [''https://org.example/.default'']]" for x y
    using get_access_token_flow [of cached_msal "''app-1''" "''s3cret''" "''tenant-1''"
        "''https://org.example/.default''"]
    by (cases x) (simp_all add: Let_def cached_msal_def)
  have b: "get_access_token denied_msal ''app-1'' ''s3cret'' ''tenant-1'' ''https://org.example/.default'' = (x, y)
           \<Longrightarrow> x = Inl (TokenAcquisitionFailed [(''error'', JStr ''invalid_client'')])
             \<and> y = [AcquireTokenSilent [''https://org.example/.default''],
       AcquireTokenForClient [''https://org.example/.default'']]" for x y
    using get_access_token_flow [of denied_msal "''app-1''" "''s3cret''" "''tenant-1''"
        "''https://org.example/.default''"]
    by (cases x) (simp_all add: Let_def denied_msal_def)
  show ?thesis
    using a b by (metis surj_pair)
qed

section \<open>Paging\<close>

lemma dataverse_get_answers:
  assumes "answers srv (length (requests w)) url body"
  shows "dataverse_get srv url None 5 w = (Inr body, sent w [(url, None)])"
proof -
  obtain r where r: "srv (length (requests w)) (url, None) = Inr r"
    "status_code r = 200" "json_of r = Some body"
    using assms by (auto simp: answers_def split: sum.splits)
  have "\<not> retryable (status_code r)"
    using r(2) by (simp add: retryable_def)
  then show ?thesis
    using dataverse_get_decided [of 1 5 srv w url None r] r
    by (simp add: sent_def)
qed

lemma next_row_request:
  assumes "answers srv (length (requests w)) url body" "page_readable body"
  shows "next_row (Suc n) srv (Requesting url) w =
         next_row n srv (Yielding (page_rows body) body) (sent w [(url, None)])"
  using assms(2)
  by (simp add: dataverse_get_answers [OF assms(1)] page_readable_def page_rows_def
      split: sum.splits)

lemma page_readable_dict:
  "page_readable body \<Longrightarrow> dict_get body k d = Inr (case dict_get body k d of Inr v \<Rightarrow> v | Inl _ \<Rightarrow> d)"
  by (cases body) (simp_all add: page_readable_def)

lemma next_row_stop:
  assumes "page_readable body" "\<not> truthy (page_link body)"
  shows "next_row (Suc n) srv (Yielding [] body) w = Some (Inr None, Finished, w)"
  using assms by (cases body) (simp_all add: page_readable_def page_link_def)

lemma next_row_follow:
  assumes "page_readable body" "truthy (page_link body)"
  shows "next_row (Suc n) srv (Yielding [] body) w = next_row n srv (Requesting (page_link body)) w"
  using assms by (cases body) (simp_all add: page_readable_def page_link_def)

lemma next_row_mono: "next_row n srv g w = Some r \<Longrightarrow> next_row (Suc n) srv g w = Some r"
proof (induction n srv g w rule: next_row.induct)
  case (1 srv g w)
  then show ?case by simp
next
  case (2 n srv w)
  then show ?case by simp
next
  case (3 n srv row rws data w)
  then show ?case by simp
next
  case (4 n srv data w)
  then show ?case
    by (cases n) (auto split: sum.splits if_splits)
next
  case (5 n srv url w)
  then show ?case
    by (cases n) (auto split: sum.splits prod.splits)
qed

lemma next_row_mono_le:
  assumes "n \<le> m" "next_row n srv g w = Some r"
  shows "next_row m srv g w = Some r"
  using assms by (induction rule: dec_induct) (auto intro: next_row_mono)

lemma list_rows_mono: "list_rows n srv g w = Some r \<Longrightarrow> list_rows (Suc n) srv g w = Some r"
proof (induction n arbitrary: g w r)
  case 0
  then show ?case by simp
next
  case (Suc n)
  obtain ev g' w' where nr: "next_row n srv g w = Some (ev, g', w')"
    using Suc.prems by (cases "next_row n srv g w") auto
  have nr': "next_row (Suc n) srv g w = Some (ev, g', w')"
    using nr by (rule next_row_mono)
  show ?case
  proof (cases ev)
    case (Inl e)
    then show ?thesis using Suc.prems nr nr' by simp
  next
    case (Inr o1)
    show ?thesis
    proof (cases o1)
      case None
      then show ?thesis using Suc.prems nr nr' Inr by simp
    next
      case (Some row)
      obtain r' where r': "list_rows n srv g' w' = Some r'"
        using Suc.prems nr Inr Some by (cases "list_rows n srv g' w'") auto
      have up: "list_rows (Suc n) srv g' w' = Some r'"
        using r' by (rule Suc.IH)
      have "list_rows (Suc n) srv g w =
              (case Some r' of None \<Rightarrow> None | Some (Inl e, w'') \<Rightarrow> Some (Inl e, w'')
               | Some (Inr rs, w'') \<Rightarrow> Some (Inr (row # rs), w''))"
        by (subst list_rows.simps) (simp add: nr Inr Some r' del: list_rows.simps)
      moreover have "list_rows (Suc (Suc n)) srv g w =
              (case Some r' of None \<Rightarrow> None | Some (Inl e, w'') \<Rightarrow> Some (Inl e, w'')
               | Some (Inr rs, w'') \<Rightarrow> Some (Inr (row # rs), w''))"
        by (subst list_rows.simps) (simp add: nr' Inr Some up del: list_rows.simps)
      ultimately show ?thesis
        using Suc.prems by simp
    qed
  qed
qed

lemma list_rows_mono_le:
  assumes "n \<le> m" "list_rows n srv g w = Some r"
  shows "list_rows m srv g w = Some r"
  using assms
proof (induction rule: dec_induct)
  case base
  then show ?case .
next
  case (step k)
  from step.IH [OF step.prems] show ?case
    by (rule list_rows_mono)
qed

lemma sent_nil: "sent w [] = w"
  by (simp add: sent_def)

lemma sent_sent: "sent (sent w xs) ys = sent w (xs @ ys)"
  by (simp add: sent_def)

lemma requests_sent: "length (requests (sent w xs)) = length (requests w) + length xs"
  by (simp add: sent_def)

lemma list_rows_Suc:
  "list_rows (Suc n) srv g w = list_step (next_row n srv g w) (list_rows n srv)"
  by (simp add: list_step_def)

lemma list_step_mono:
  assumes "list_step nr k = Some R"
    and "\<And>g w x. k g w = Some x \<Longrightarrow> k' g w = Some x"
  shows "list_step nr k' = Some R"
proof -
  obtain ev g1 w1 where nr: "nr = Some (ev, g1, w1)"
    using assms(1) by (cases nr) (auto simp: list_step_def)
  show ?thesis
  proof (cases ev)
    case (Inl e)
    then show ?thesis using assms(1) nr by (simp add: list_step_def)
  next
    case (Inr o1)
    show ?thesis
    proof (cases o1)
      case None
      then show ?thesis using assms(1) nr Inr by (simp add: list_step_def)
    next
      case (Some row)
      obtain x where x: "k g1 w1 = Some x"
        using assms(1) nr Inr Some by (cases "k g1 w1") (auto simp: list_step_def)
      have "k' g1 w1 = Some x"
        using x by (rule assms(2))
      then show ?thesis
        using assms(1) nr Inr Some x by (simp add: list_step_def)
    qed
  qed
qed

lemma list_rows_skip:
  assumes skip: "\<And>m. next_row (m + k) srv g w = next_row m srv g' w'"
    and run: "list_rows n srv g' w' = Some R"
  shows "list_rows (n + k) srv g w = Some R"
proof (cases n)
  case 0
  then show ?thesis using run by simp
next
  case (Suc m)
  have "list_step (next_row m srv g' w') (list_rows m srv) = Some R"
    using run unfolding Suc list_rows_Suc .
  then have "list_step (next_row m srv g' w') (list_rows (m + k) srv) = Some R"
    by (rule list_step_mono) (rule list_rows_mono_le [of m], simp_all)
  then have "list_step (next_row (m + k) srv g w) (list_rows (m + k) srv) = Some R"
    by (simp only: skip)
  then have "list_rows (Suc (m + k)) srv g w = Some R"
    by (simp only: list_rows_Suc)
  then show ?thesis
    by (simp only: Suc add_Suc)
qed

lemma list_rows_yield:
  assumes "list_rows n srv (Yielding rs body) w = Some (Inr out, w')"
  shows "list_rows (Suc n) srv (Yielding (r # rs) body) w = Some (Inr (r # out), w')"
proof -
  obtain m where m: "n = Suc m"
    using assms by (cases n) auto
  have "next_row n srv (Yielding (r # rs) body) w = Some (Inr (Some r), Yielding rs body, w)"
    by (simp add: m)
  then show ?thesis
    unfolding list_rows_Suc using assms by (simp add: list_step_def)
qed

lemma list_rows_stop:
  assumes "page_readable body" "\<not> truthy (page_link body)"
  shows "list_rows (Suc (Suc n)) srv (Yielding [] body) w = Some (Inr [], w)"
  unfolding list_rows_Suc next_row_stop [OF assms] by (simp add: list_step_def)

lemma list_rows_yielding_last:
  "page_readable body \<Longrightarrow> \<not> truthy (page_link body) \<Longrightarrow> length rs + 2 \<le> n \<Longrightarrow>
   list_rows n srv (Yielding rs body) w = Some (Inr rs, w)"
proof (induction rs arbitrary: n)
  case Nil
  then obtain m where "n = Suc (Suc m)"
    by (metis add_0 le_Suc_ex list.size(3) add_2_eq_Suc)
  then show ?case
    using list_rows_stop [OF Nil.prems(1,2)] by (simp del: list_rows.simps)
next
  case (Cons r rs)
  then obtain m where m: "n = Suc m"
    by (cases n) auto
  have "list_rows m srv (Yielding rs body) w = Some (Inr rs, w)"
    using Cons.prems m by (intro Cons.IH) simp_all
  then show ?case
    unfolding m by (rule list_rows_yield)
qed

lemma list_rows_yielding:
  "continues srv (length (requests w)) body ps \<Longrightarrow>
   length rs + length (all_rows ps) + 2 * length ps + 2 \<le> n \<Longrightarrow>
   list_rows n srv (Yielding rs body) w =
     Some (Inr (rs @ all_rows ps), sent w (page_requests ps))"
proof (induction ps arbitrary: rs body w n)
  case Nil
  then show ?case
    by (simp add: continues_def all_rows_def page_requests_def sent_nil list_rows_yielding_last
        del: list_rows.simps)
next
  case (Cons p ps)
  obtain url b where p: "p = (url, b)"
    by (cases p) auto
  show ?case
    using Cons.prems
  proof (induction rs arbitrary: n)
    case Nil
    have c: "page_readable body" "truthy (page_link body)" "page_link body = url"
      "answers srv (length (requests w)) url b" "page_readable b"
      using Nil.prems(1) by (auto simp: continues_def p)
    have c': "continues srv (length (requests (sent w [(url, None)]))) b ps"
      using Nil.prems(1) by (simp add: continues_def p requests_sent)
    have "2 \<le> n"
      using Nil.prems(2) by simp
    then obtain m where m: "n = m + 2"
      by (metis add.commute le_Suc_ex)
    have fuel: "length (page_rows b) + length (all_rows ps) + 2 * length ps + 2 \<le> m"
      using Nil.prems(2) by (simp add: m all_rows_def p)
    have inner: "list_rows m srv (Yielding (page_rows b) b) (sent w [(url, None)]) =
        Some (Inr (page_rows b @ all_rows ps), sent (sent w [(url, None)]) (page_requests ps))"
      using c' fuel by (rule Cons.IH)
    have skip: "next_row (k + 2) srv (Yielding [] body) w =
        next_row k srv (Yielding (page_rows b) b) (sent w [(url, None)])" for k
    proof -
      have "next_row (Suc (Suc k)) srv (Yielding [] body) w =
            next_row (Suc k) srv (Requesting url) w"
        using next_row_follow [OF c(1,2), of "Suc k" srv w] by (simp only: c(3))
      also have "\<dots> = next_row k srv (Yielding (page_rows b) b) (sent w [(url, None)])"
        by (rule next_row_request [OF c(4,5)])
      finally show ?thesis by (simp only: add_2_eq_Suc')
    qed
    have "list_rows (m + 2) srv (Yielding [] body) w =
        Some (Inr (page_rows b @ all_rows ps), sent (sent w [(url, None)]) (page_requests ps))"
      using skip inner by (rule list_rows_skip)
    then show ?case
      by (simp add: m p all_rows_def page_requests_def sent_sent del: list_rows.simps)
  next
    case (Cons r rs)
    then obtain m where m: "n = Suc m"
      by (cases n) auto
    have "list_rows m srv (Yielding rs body) w =
            Some (Inr (rs @ all_rows (p # ps)), sent w (page_requests (p # ps)))"
      using Cons.prems m by (intro Cons.IH) simp_all
    then show ?case
      unfolding m by (simp only: list_rows_yield append_Cons)
  qed
qed

lemma list_rows_served:
  assumes "served srv (length (requests w)) ((url, b) # ps)"
    and "length (all_rows ((url, b) # ps)) + 2 * length ((url, b) # ps) + 1 \<le> n"
  shows "list_rows n srv (Requesting url) w =
     Some (Inr (all_rows ((url, b) # ps)), sent w (page_requests ((url, b) # ps)))"
proof -
  have c: "answers srv (length (requests w)) url b" "page_readable b"
    using assms(1) by simp_all
  have c': "continues srv (length (requests (sent w [(url, None)]))) b ps"
    using assms(1) by (simp add: continues_def requests_sent)
  have "1 \<le> n"
    using assms(2) by simp
  then obtain m where m: "n = m + 1"
    by (metis add.commute le_Suc_ex)
  have fuel: "length (page_rows b) + length (all_rows ps) + 2 * length ps + 2 \<le> m"
    using assms(2) by (simp add: m all_rows_def)
  have inner: "list_rows m srv (Yielding (page_rows b) b) (sent w [(url, None)]) =
      Some (Inr (page_rows b @ all_rows ps), sent (sent w [(url, None)]) (page_requests ps))"
    using c' fuel by (rule list_rows_yielding)
  have skip: "next_row (k + 1) srv (Requesting url) w =
      next_row k srv (Yielding (page_rows b) b) (sent w [(url, None)])" for k
    using next_row_request [OF c, of k] by (simp only: Suc_eq_plus1)
  have "list_rows (m + 1) srv (Requesting url) w =
      Some (Inr (page_rows b @ all_rows ps), sent (sent w [(url, None)]) (page_requests ps))"
    using skip inner by (rule list_rows_skip)
  then show ?thesis
    by (simp add: m all_rows_def page_requests_def sent_sent del: list_rows.simps)
qed

lemma odata_page_facts:
  assumes "case map_of kvs ''value'' of Some (JArr rs) \<Rightarrow> True | _ \<Rightarrow> False"
  shows "page_readable (JObj kvs)" "page_rows (JObj kvs) = value_array kvs"
  using assms
  by (auto simp: page_readable_def page_rows_def value_array_def split: option.splits json.splits)

lemma odata_pages_served:
  "odata_pages srv k ps \<Longrightarrow> served srv k (map (\<lambda>p. (JStr (fst p), JObj (snd p))) ps)"
proof (induction ps arbitrary: k)
  case Nil
  then show ?case by simp
next
  case (Cons p ps)
  obtain url kvs where p: "p = (url, kvs)"
    by (cases p) auto
  have v: "case map_of kvs ''value'' of Some (JArr rs) \<Rightarrow> True | _ \<Rightarrow> False"
    using Cons.prems by (simp add: p)
  have link: "page_link (JObj kvs) = (case ps of [] \<Rightarrow> JNull | q # _ \<Rightarrow> JStr (fst q))"
    using Cons.prems by (simp add: p page_link_def split: list.splits)
  have rest: "served srv (Suc k) (map (\<lambda>p. (JStr (fst p), JObj (snd p))) ps)"
    using Cons.prems by (intro Cons.IH) (simp add: p)
  show ?case
    using Cons.prems rest odata_page_facts(1) [OF v]
    by (cases ps) (simp_all add: p link)
qed

text \<open>
  Claim C3. Let the pages \<open>P1..Pn\<close> (\<open>n \<ge> 1\<close>) be served at their URLs, the first at the
  URL \<^verbatim>\<open>build_entity_url\<close> gives, each with status 200 on the first attempt; each body
  is an object whose \<^verbatim>\<open>value\<close> is an array; each page but the last carries the
  (non-empty) URL of the next as \<^verbatim>\<open>@odata.nextLink\<close>, and the last carries none. Then
  \<^verbatim>\<open>list(fetch_all(...))\<close> returns, given fuel for its steps, exactly the concatenation
  of the pages' value arrays in order, and the requests it sent are exactly the \<open>n\<close>
  page URLs in order, each once; it slept never.
\<close>

theorem fetch_all_pagination:
  assumes "pages \<noteq> []"
    and "fst (hd pages) = build_entity_url RESOURCE entity_set select filter' (Some page_size)"
    and "odata_pages srv (length (requests w)) pages"
    and "length (concat (map (\<lambda>p. value_array (snd p)) pages)) + 2 * length pages + 1 \<le> fuel"
  shows "list_rows fuel srv (fetch_all RESOURCE entity_set select filter' page_size) w =
     Some (Inr (concat (map (\<lambda>p. value_array (snd p)) pages)),
           w\<lparr>requests := requests w @ map (\<lambda>p. (JStr (fst p), None)) pages\<rparr>)"
proof -
  obtain url kvs ps where pages: "pages = (url, kvs) # ps"
    using assms(1) by (cases pages) auto
  let ?js = "map (\<lambda>p. (JStr (fst p), JObj (snd p))) ps"
  have rows: "all_rows (map (\<lambda>p. (JStr (fst p), JObj (snd p))) qs) =
      concat (map (\<lambda>p. value_array (snd p)) qs)"
    if "odata_pages srv k qs" for qs k
    using that
  proof (induction qs arbitrary: k)
    case Nil
    then show ?case by (simp add: all_rows_def)
  next
    case (Cons q qs)
    obtain u b where q: "q = (u, b)" by (cases q) auto
    have "page_rows (JObj b) = value_array b"
      using Cons.prems by (intro odata_page_facts(2)) (simp add: q)
    moreover have "all_rows (map (\<lambda>p. (JStr (fst p), JObj (snd p))) qs) =
        concat (map (\<lambda>p. value_array (snd p)) qs)"
      using Cons.prems by (intro Cons.IH [of "Suc k"]) (simp add: q)
    ultimately show ?case
      by (simp add: all_rows_def q)
  qed
  have s: "served srv (length (requests w)) ((JStr url, JObj kvs) # ?js)"
    using odata_pages_served [OF assms(3)] by (simp add: pages)
  have r: "all_rows ((JStr url, JObj kvs) # ?js) = concat (map (\<lambda>p. value_array (snd p)) pages)"
    using rows [OF assms(3)] by (simp add: pages)
  have f: "length (all_rows ((JStr url, JObj kvs) # ?js)) + 2 * length ((JStr url, JObj kvs) # ?js) + 1
      \<le> fuel"
    using assms(4) unfolding r by (simp add: pages)
  have "list_rows fuel srv (Requesting (JStr url)) w =
      Some (Inr (all_rows ((JStr url, JObj kvs) # ?js)),
            sent w (page_requests ((JStr url, JObj kvs) # ?js)))"
    using s f by (rule list_rows_served)
  moreover have "fetch_all RESOURCE entity_set select filter' page_size = Requesting (JStr url)"
    using assms(2) by (simp add: fetch_all_def pages)
  ultimately show ?thesis
    unfolding r by (simp add: sent_def page_requests_def pages comp_def del: list_rows.simps)
qed

lemma first_url_built:
  "build_entity_url ''https://org.example'' ''zz_Recipe'' None None (Some 5000) = first_url"
  by (simp add: build_entity_url_def API_VER_def str_int_def digit_char_def first_url_def)

text \<open>
  The theorem at a server with two pages, of two records and of one: three records in
  order, two requests.
\<close>

theorem fetch_all_pagination_witness:
  "list_rows 8 two_page_server (fetch_all ''https://org.example'' ''zz_Recipe'' None None 5000) world0 =
     Some (Inr [recipe1, recipe2, recipe3],
           \<lparr>requests = [(JStr first_url, None), (JStr next_url, None)], sleeps = []\<rparr>)"
proof -
  let ?pages = "[(first_url, page1), (next_url, page2)]"
  have a: "?pages \<noteq> []" by simp
  have b: "fst (hd ?pages) = build_entity_url ''https://org.example'' ''zz_Recipe'' None None (Some 5000)"
    by (simp add: first_url_built)
  have ne: "next_url \<noteq> first_url" "next_url \<noteq> []"
    by (simp_all add: next_url_def first_url_def)
  have c: "odata_pages two_page_server (length (requests world0)) ?pages"
    using ne by (simp add: answers_def two_page_server_def ok_def page1_def page2_def)
  have v: "concat (map (\<lambda>p. value_array (snd p)) ?pages) = [recipe1, recipe2, recipe3]"
    by (simp add: value_array_def page1_def page2_def)
  have d: "length (concat (map (\<lambda>p. value_array (snd p)) ?pages)) + 2 * length ?pages + 1 \<le> 8"
    unfolding v by simp
  show ?thesis
    using fetch_all_pagination [OF a b c d] unfolding v
    by (simp add: world0_def del: list_rows.simps)
qed

text \<open>
  Claim C10. Let a page request be answered, at the first attempt, with status 200 and
  a JSON object. If the object has no \<^verbatim>\<open>value\<close> key, the generator goes on as after a
  page without rows: no row is yielded from the page and nothing is raised. If the
  object's \<^verbatim>\<open>@odata.nextLink\<close> is absent or falsy (an empty string, \<^verbatim>\<open>null\<close>), the
  generator ends once the page's rows are yielded. With both, \<^verbatim>\<open>list(fetch_all(...))\<close>
  is the empty list after that one request; with a \<^verbatim>\<open>value\<close> array and such a link it
  is the array.
\<close>

theorem fetch_all_missing_keys:
  assumes "answers srv (length (requests w)) url (JObj kvs)"
  shows "(map_of kvs ''value'' = None \<longrightarrow>
            next_row (Suc n) srv (Requesting url) w =
            next_row n srv (Yielding [] (JObj kvs)) (w\<lparr>requests := requests w @ [(url, None)]\<rparr>))
       \<and> (link_absent_or_falsy kvs \<longrightarrow>
            next_row (Suc n) srv (Yielding [] (JObj kvs)) v = Some (Inr None, Finished, v))
       \<and> (map_of kvs ''value'' = None \<and> link_absent_or_falsy kvs \<longrightarrow>
            list_rows (n + 3) srv (Requesting url) w =
            Some (Inr [], w\<lparr>requests := requests w @ [(url, None)]\<rparr>))
       \<and> (map_of kvs ''value'' = Some (JArr rs) \<and> link_absent_or_falsy kvs \<longrightarrow>
            list_rows (n + length rs + 3) srv (Requesting url) w =
            Some (Inr rs, w\<lparr>requests := requests w @ [(url, None)]\<rparr>))"
proof (intro conjI impI)
  assume m: "map_of kvs ''value'' = None"
  have "page_readable (JObj kvs)" "page_rows (JObj kvs) = []"
    using m by (simp_all add: page_readable_def page_rows_def)
  then show "next_row (Suc n) srv (Requesting url) w =
      next_row n srv (Yielding [] (JObj kvs)) (w\<lparr>requests := requests w @ [(url, None)]\<rparr>)"
    using next_row_request [OF assms, of n] by (simp add: sent_def)
next
  assume "link_absent_or_falsy kvs"
  then show "next_row (Suc n) srv (Yielding [] (JObj kvs)) v = Some (Inr None, Finished, v)"
    by (simp add: link_absent_or_falsy_def split: option.splits)
next
  assume h: "map_of kvs ''value'' = None \<and> link_absent_or_falsy kvs"
  have p: "page_readable (JObj kvs)" "page_rows (JObj kvs) = []" "\<not> truthy (page_link (JObj kvs))"
    using h by (auto simp: page_readable_def page_rows_def page_link_def link_absent_or_falsy_def
        split: option.splits)
  have "served srv (length (requests w)) [(url, JObj kvs)]"
    using assms p by simp
  then have "list_rows (n + 3) srv (Requesting url) w =
      Some (Inr (all_rows [(url, JObj kvs)]), sent w (page_requests [(url, JObj kvs)]))"
    by (rule list_rows_served) (simp add: all_rows_def p)
  then show "list_rows (n + 3) srv (Requesting url) w =
      Some (Inr [], w\<lparr>requests := requests w @ [(url, None)]\<rparr>)"
    by (simp add: all_rows_def p sent_def page_requests_def del: list_rows.simps)
next
  assume h: "map_of kvs ''value'' = Some (JArr rs) \<and> link_absent_or_falsy kvs"
  have p: "page_readable (JObj kvs)" "page_rows (JObj kvs) = rs" "\<not> truthy (page_link (JObj kvs))"
    using h by (auto simp: page_readable_def page_rows_def page_link_def link_absent_or_falsy_def
        split: option.splits)
  have "served srv (length (requests w)) [(url, JObj kvs)]"
    using assms p by simp
  then have "list_rows (n + length rs + 3) srv (Requesting url) w =
      Some (Inr (all_rows [(url, JObj kvs)]), sent w (page_requests [(url, JObj kvs)]))"
    by (rule list_rows_served) (simp add: all_rows_def p)
  then show "list_rows (n + length rs + 3) srv (Requesting url) w =
      Some (Inr rs, w\<lparr>requests := requests w @ [(url, None)]\<rparr>)"
    by (simp add: all_rows_def p sent_def page_requests_def del: list_rows.simps)
qed

text \<open>
  The theorem at a server whose body has no \<^verbatim>\<open>value\<close> key and an empty string as
  \<^verbatim>\<open>@odata.nextLink\<close>: no rows, no error, one request.
\<close>

theorem fetch_all_missing_keys_witness:
  "list_rows 3 bare_server (Requesting (JStr first_url)) world0 =
     Some (Inr [], \<lparr>requests = [(JStr first_url, None)], sleeps = []\<rparr>)"
proof -
  let ?kvs = "[(''@odata.context'', JStr ''ctx''), (''@odata.nextLink'', JStr [])]"
  have a: "answers bare_server (length (requests world0)) (JStr first_url) (JObj ?kvs)"
    by (simp add: answers_def bare_server_def ok_def)
  have b: "map_of ?kvs ''value'' = None \<and> link_absent_or_falsy ?kvs"
    by (simp add: link_absent_or_falsy_def)
  show ?thesis
    using fetch_all_missing_keys [OF a, of 0] b
    by (simp add: world0_def del: list_rows.simps)
qed

section \<open>The table\<close>

lemma sample_loop_of_list:
  "list_rows n srv g w = Some (Inr xs, w') \<Longrightarrow>
   \<exists>g' w''. sample_loop n srv sample_rows acc g w =
     Some (Inr (acc @ take (nat (max 1 (sample_rows - int (length acc)))) xs), g', w'')"
proof (induction n arbitrary: g w xs acc)
  case 0
  then show ?case by simp
next
  case (Suc n)
  have step: "list_step (next_row n srv g w) (list_rows n srv) = Some (Inr xs, w')"
    using Suc.prems unfolding list_rows_Suc .
  then obtain ev g1 w1 where nr: "next_row n srv g w = Some (ev, g1, w1)"
    by (cases "next_row n srv g w") (auto simp: list_step_def)
  show ?case
  proof (cases ev)
    case (Inl e)
    then show ?thesis using step nr by (simp add: list_step_def)
  next
    case (Inr o1)
    show ?thesis
    proof (cases o1)
      case None
      then have "xs = []"
        using step nr Inr by (simp add: list_step_def)
      then show ?thesis
        using nr Inr None by simp
    next
      case (Some row)
      obtain ys where ys: "list_rows n srv g1 w1 = Some (Inr ys, w')" "xs = row # ys"
        using step nr Inr Some
        by (auto simp: list_step_def split: option.splits sum.splits prod.splits)
      show ?thesis
      proof (cases "sample_rows \<le> int (length (acc @ [row]))")
        case True
        then have "nat (max 1 (sample_rows - int (length acc))) = 1"
          by simp
        then show ?thesis
          using nr Inr Some True ys(2) by simp
      next
        case False
        obtain g' w'' where r: "sample_loop n srv sample_rows (acc @ [row]) g1 w1 =
            Some (Inr ((acc @ [row]) @
              take (nat (max 1 (sample_rows - int (length (acc @ [row]))))) ys), g', w'')"
          using Suc.IH [OF ys(1), of "acc @ [row]"] by blast
        have e: "nat (max 1 (sample_rows - int (length acc))) =
            Suc (nat (max 1 (sample_rows - int (length (acc @ [row])))))"
          using False by simp
        have "acc @ take (nat (max 1 (sample_rows - int (length acc)))) xs =
            (acc @ [row]) @ take (nat (max 1 (sample_rows - int (length (acc @ [row]))))) ys"
          unfolding e ys(2) by (simp only: take_Suc_Cons append_assoc append_Cons append_Nil)
        then show ?thesis
          using nr Inr Some False r by (simp del: sample_loop.simps add: sample_loop.simps(2) Let_def)
      qed
    qed
  qed
qed

lemma sample_loop_of_empty:
  assumes "list_rows n srv g w = Some (Inr [], w')"
  shows "\<exists>g'. sample_loop n srv sample_rows [] g w = Some (Inr [], g', w')"
proof (cases n)
  case 0
  then show ?thesis using assms by simp
next
  case (Suc m)
  have step: "list_step (next_row m srv g w) (list_rows m srv) = Some (Inr [], w')"
    using assms unfolding Suc list_rows_Suc .
  then obtain g1 where "next_row m srv g w = Some (Inr None, g1, w')"
    by (auto simp: list_step_def split: option.splits sum.splits prod.splits)
  then show ?thesis
    by (simp add: Suc)
qed

lemma dataverse_to_spark_yields:
  assumes "yields fuel srv (fetch_all RESOURCE entity_set select filter' 5000) xs"
  shows "\<exists>w'. dataverse_to_spark fuel srv RESOURCE entity_set select filter' sample_rows w =
     Some (Inr (if xs = [] then empty_frame
                else unionByName (to_frame (take (nat (max 1 sample_rows)) xs)) (to_frame xs)), w')"
proof -
  let ?g = "fetch_all RESOURCE entity_set select filter' 5000"
  obtain w0 where l0: "list_rows fuel srv ?g w = Some (Inr xs, w0)"
    using assms unfolding yields_def by blast
  obtain g1 w1 where s: "sample_loop fuel srv sample_rows [] ?g w =
      Some (Inr (take (nat (max 1 sample_rows)) xs), g1, w1)"
    using sample_loop_of_list [OF l0, of sample_rows "[]"] by auto
  obtain w2 where l2: "list_rows fuel srv ?g w1 = Some (Inr xs, w2)"
    using assms unfolding yields_def by blast
  show ?thesis
  proof (cases "xs = []")
    case True
    then show ?thesis
      using s by (simp add: dataverse_to_spark_def)
  next
    case False
    then have "take (nat (max 1 sample_rows)) xs \<noteq> []"
      by (cases xs) simp_all
    then show ?thesis
      using s l2 False by (simp add: dataverse_to_spark_def to_frame_def Let_def)
  qed
qed





lemma length_rows_to_frame: "length (rows (to_frame recs)) = length recs"
  by (simp add: to_frame_def createDataFrame_def astype_string_def json_normalize_def Let_def)

lemma length_rows_union:
  "length (rows (unionByName l r)) = length (rows l) + length (rows r)"
  by (simp add: unionByName_def Let_def)











lemma pair_server_yields:
  "yields 5 pair_server (fetch_all ''https://org.example'' ''zz_Recipe'' None None 5000)
     [JObj [(''zz_recipeid'', JStr ''a'')], JObj [(''owner'', JObj [(''id'', JInt 7)])]]"
proof -
  let ?body = "JObj [(''value'', JArr [JObj [(''zz_recipeid'', JStr ''a'')],
                                  JObj [(''owner'', JObj [(''id'', JInt 7)])]])]"
  have s: "served pair_server k [(JStr first_url, ?body)]" for k
    by (simp add: answers_def pair_server_def ok_def page_readable_def page_link_def)
  have r: "all_rows [(JStr first_url, ?body)] =
      [JObj [(''zz_recipeid'', JStr ''a'')], JObj [(''owner'', JObj [(''id'', JInt 7)])]]"
    by (simp add: all_rows_def page_rows_def)
  have "list_rows 5 pair_server (Requesting (JStr first_url)) w =
      Some (Inr (all_rows [(JStr first_url, ?body)]), sent w (page_requests [(JStr first_url, ?body)]))"
    for w
    by (rule list_rows_served [OF s]) (simp add: r)
  then show ?thesis
    unfolding yields_def r by (simp add: fetch_all_def first_url_built del: list_rows.simps)
qed


text \<open>
  Claim C6. When the record stream of the entity set is empty, that is when
  \<^verbatim>\<open>list(fetch_all(...))\<close> returns the empty list, \<^verbatim>\<open>dataverse_to_spark\<close> returns the
  table with no column and no row, raises nothing and sends no request beyond those of
  that one pass over the stream.
\<close>

theorem dataverse_to_spark_empty_stream:
  assumes "list_rows fuel srv (fetch_all RESOURCE entity_set select filter' 5000) w = Some (Inr [], w')"
  shows "dataverse_to_spark fuel srv RESOURCE entity_set select filter' sample_rows w =
     Some (Inr \<lparr>columns = [], rows = []\<rparr>, w')"
proof -
  obtain g' where "sample_loop fuel srv sample_rows []
      (fetch_all RESOURCE entity_set select filter' 5000) w = Some (Inr [], g', w')"
    using sample_loop_of_empty [OF assms] by blast
  then show ?thesis
    by (simp add: dataverse_to_spark_def empty_frame_def)
qed

text \<open>The theorem at a server whose only page has an empty \<^verbatim>\<open>value\<close> array.\<close>

theorem dataverse_to_spark_empty_stream_witness:
  "dataverse_to_spark 3 empty_server ''https://org.example'' ''zz_Recipe'' None None 1000 world0 =
     Some (Inr \<lparr>columns = [], rows = []\<rparr>, \<lparr>requests = [(JStr first_url, None)], sleeps = []\<rparr>)"
proof -
  let ?body = "JObj [(''@odata.context'', JStr ''ctx''), (''value'', JArr [])]"
  have s: "served empty_server (length (requests world0)) [(JStr first_url, ?body)]"
    by (simp add: answers_def empty_server_def ok_def page_readable_def page_link_def)
  have r: "all_rows [(JStr first_url, ?body)] = []"
    by (simp add: all_rows_def page_rows_def)
  have "list_rows 3 empty_server (Requesting (JStr first_url)) world0 =
      Some (Inr (all_rows [(JStr first_url, ?body)]),
            sent world0 (page_requests [(JStr first_url, ?body)]))"
    by (rule list_rows_served [OF s]) (simp add: r)
  then have "list_rows 3 empty_server
      (fetch_all ''https://org.example'' ''zz_Recipe'' None None 5000) world0 =
      Some (Inr [], \<lparr>requests = [(JStr first_url, None)], sleeps = []\<rparr>)"
    unfolding r
    by (simp add: fetch_all_def first_url_built sent_def page_requests_def world0_def
        del: list_rows.simps)
  then show ?thesis
    by (rule dataverse_to_spark_empty_stream)
qed

lemma two_page_get:
  "dataverse_get two_page_server (JStr first_url) None 5 w =
     (Inr (JObj page1), sent w [(JStr first_url, None)])"
  "dataverse_get two_page_server (JStr next_url) None 5 w =
     (Inr (JObj page2), sent w [(JStr next_url, None)])"
proof -
  have ne: "next_url \<noteq> first_url"
    by (simp add: next_url_def first_url_def)
  show "dataverse_get two_page_server (JStr first_url) None 5 w =
     (Inr (JObj page1), sent w [(JStr first_url, None)])"
    by (rule dataverse_get_answers) (simp add: answers_def two_page_server_def ok_def)
  show "dataverse_get two_page_server (JStr next_url) None 5 w =
     (Inr (JObj page2), sent w [(JStr next_url, None)])"
    using ne by (intro dataverse_get_answers) (simp add: answers_def two_page_server_def ok_def)
qed

lemma next_url_truthy: "truthy (JStr next_url)"
  by (simp add: next_url_def)

lemma two_page_list:
  "list_rows 8 two_page_server (Requesting (JStr first_url)) w =
     Some (Inr [recipe1, recipe2, recipe3], sent w [(JStr first_url, None), (JStr next_url, None)])"
  using next_url_truthy
  by (simp add: eval_nat_numeral two_page_get page1_def page2_def sent_sent del: dataverse_get_def)

lemma two_page_sample_all:
  "sample_loop 8 two_page_server 1000 [] (Requesting (JStr first_url)) w =
     Some (Inr [recipe1, recipe2, recipe3], Finished,
           sent w [(JStr first_url, None), (JStr next_url, None)])"
  using next_url_truthy
  by (simp add: eval_nat_numeral two_page_get page1_def page2_def sent_sent)

lemma two_page_sample_two:
  "sample_loop 8 two_page_server 2 [] (Requesting (JStr first_url)) w =
     Some (Inr [recipe1, recipe2], Yielding [] (JObj page1), sent w [(JStr first_url, None)])"
  by (simp add: eval_nat_numeral two_page_get page1_def)

lemma two_page_frames:
  "unionByName (to_frame [recipe1, recipe2, recipe3]) (to_frame [recipe1, recipe2, recipe3]) =
     \<lparr>columns = [''zz_recipeid'', ''zz_name'', ''owner.id'', ''zz_grade''],
      rows = [[Some (JStr ''a''), Some (JStr ''glue''), None, None],
              [Some (JStr ''b''), None, Some (JInt 7), None],
              [Some (JStr ''c''), None, None, None],
              [Some (JStr ''a''), Some (JStr ''glue''), None, None],
              [Some (JStr ''b''), None, Some (JInt 7), None],
              [Some (JStr ''c''), None, None, None]]\<rparr>"
  "unionByName (to_frame [recipe1, recipe2]) (to_frame [recipe1, recipe2, recipe3]) =
     \<lparr>columns = [''zz_recipeid'', ''zz_name'', ''owner.id'', ''zz_grade''],
      rows = [[Some (JStr ''a''), Some (JStr ''glue''), None, None],
              [Some (JStr ''b''), None, Some (JInt 7), None],
              [Some (JStr ''a''), Some (JStr ''glue''), None, None],
              [Some (JStr ''b''), None, Some (JInt 7), None],
              [Some (JStr ''c''), None, None, None]]\<rparr>"
  by (simp_all add: to_frame_def createDataFrame_def astype_string_def json_normalize_def
      unionByName_def add_columns_def new_key_def recipe1_def recipe2_def recipe3_def Let_def)

text \<open>
  Claim C1, at an input where the code breaks it. The entity set has three records, on
  two pages, and \<open>sample_rows\<close> is the default 1000. The sample takes all three; the
  second batch is \<^verbatim>\<open>list(fetch_all(...))\<close>, a new generator, which fetches the three
  again. The table has six rows for three records, and four requests were sent.
\<close>

theorem dataverse_to_spark_rows_twice:
  "dataverse_to_spark 8 two_page_server ''https://org.example'' ''zz_Recipe'' None None 1000 world0 =
     Some (Inr \<lparr>columns = [''zz_recipeid'', ''zz_name'', ''owner.id'', ''zz_grade''],
             rows = [[Some (JStr ''a''), Some (JStr ''glue''), None, None],
                     [Some (JStr ''b''), None, Some (JInt 7), None],
                     [Some (JStr ''c''), None, None, None],
                     [Some (JStr ''a''), Some (JStr ''glue''), None, None],
                     [Some (JStr ''b''), None, Some (JInt 7), None],
                     [Some (JStr ''c''), None, None, None]]\<rparr>,
           \<lparr>requests = [(JStr first_url, None), (JStr next_url, None),
                        (JStr first_url, None), (JStr next_url, None)],
            sleeps = []\<rparr>)"
proof -
  have "dataverse_to_spark 8 two_page_server ''https://org.example'' ''zz_Recipe'' None None 1000 world0 =
      Some (Inr (unionByName (to_frame [recipe1, recipe2, recipe3])
                   (to_frame [recipe1, recipe2, recipe3])),
            sent (sent world0 [(JStr first_url, None), (JStr next_url, None)])
              [(JStr first_url, None), (JStr next_url, None)])"
    unfolding dataverse_to_spark_def fetch_all_def first_url_built two_page_sample_all two_page_list
    by (simp add: to_frame_def)
  then show ?thesis
    unfolding two_page_frames by (simp add: sent_def world0_def)
qed

text \<open>
  Claim C2, at an input where the code breaks it. The same entity set with
  \<open>sample_rows = 2\<close>: the sample is the first two records, so the remainder of the stream
  is the third record alone. The second batch is not that remainder: the first page is
  requested again and the batch holds all three records, the two sampled ones included,
  so the table has five rows.
\<close>

theorem dataverse_to_spark_second_batch_refetches:
  "dataverse_to_spark 8 two_page_server ''https://org.example'' ''zz_Recipe'' None None 2 world0 =
     Some (Inr \<lparr>columns = [''zz_recipeid'', ''zz_name'', ''owner.id'', ''zz_grade''],
             rows = [[Some (JStr ''a''), Some (JStr ''glue''), None, None],
                     [Some (JStr ''b''), None, Some (JInt 7), None],
                     [Some (JStr ''a''), Some (JStr ''glue''), None, None],
                     [Some (JStr ''b''), None, Some (JInt 7), None],
                     [Some (JStr ''c''), None, None, None]]\<rparr>,
           \<lparr>requests = [(JStr first_url, None), (JStr first_url, None), (JStr next_url, None)],
            sleeps = []\<rparr>)"
proof -
  have "dataverse_to_spark 8 two_page_server ''https://org.example'' ''zz_Recipe'' None None 2 world0 =
      Some (Inr (unionByName (to_frame [recipe1, recipe2]) (to_frame [recipe1, recipe2, recipe3])),
            sent (sent world0 [(JStr first_url, None)])
              [(JStr first_url, None), (JStr next_url, None)])"
    unfolding dataverse_to_spark_def fetch_all_def first_url_built two_page_sample_two two_page_list
    by (simp add: to_frame_def)
  then show ?thesis
    unfolding two_page_frames by (simp add: sent_def world0_def)
qed

text \<open>
  The number of rows \<^verbatim>\<open>dataverse_to_spark\<close> returns when the entity set yields the same
  records \<open>xs\<close> each time it is fetched: none for an empty stream, else the records of
  the sample (\<open>sample_rows\<close> of them, one if \<open>sample_rows\<close> is below one, or all if there
  are fewer) and then every record again.
\<close>

theorem dataverse_to_spark_row_count:
  assumes "yields fuel srv (fetch_all RESOURCE entity_set select filter' 5000) xs"
  shows "\<exists>t w'. dataverse_to_spark fuel srv RESOURCE entity_set select filter' sample_rows w =
           Some (Inr t, w')
      \<and> length (rows t) =
          (if xs = [] then 0 else min (nat (max 1 sample_rows)) (length xs) + length xs)"
proof -
  obtain w' where "dataverse_to_spark fuel srv RESOURCE entity_set select filter' sample_rows w =
     Some (Inr (if xs = [] then empty_frame
                else unionByName (to_frame (take (nat (max 1 sample_rows)) xs)) (to_frame xs)), w')"
    using dataverse_to_spark_yields [OF assms] by blast
  then show ?thesis
    by (auto simp: empty_frame_def length_rows_union length_rows_to_frame min_def)
qed

text \<open>The theorem at the two records of the pair server: four rows.\<close>

theorem dataverse_to_spark_row_count_witness:
  "\<exists>t w'. dataverse_to_spark 5 pair_server ''https://org.example'' ''zz_Recipe'' None None 1000 world0 =
           Some (Inr t, w')
      \<and> length (rows t) = 4"
proof -
  obtain t w' where t:
    "dataverse_to_spark 5 pair_server ''https://org.example'' ''zz_Recipe'' None None 1000 world0 =
       Some (Inr t, w')"
    "length (rows t) = min (nat (max 1 1000)) (length [JObj [(''zz_recipeid'', JStr ''a'')],
        JObj [(''owner'', JObj [(''id'', JInt 7)])]]) + length [JObj [(''zz_recipeid'', JStr ''a'')],
        JObj [(''owner'', JObj [(''id'', JInt 7)])]]"
    using dataverse_to_spark_row_count [OF pair_server_yields, of 1000 world0] by auto
  have "length (rows t) = 4"
    unfolding t(2) by simp
  then show ?thesis
    using t(1) by blast
qed

end
